theory Spec2Isabelle
  imports Main "HOL-Library.Sublist"
begin

section \<open>Data model\<close>

text \<open>
  A note is the document that \<^verbatim>\<open>add_note\<close> writes to the \<^verbatim>\<open>notes\<close> collection
  (\<^verbatim>\<open>modules/note_crud.py\<close>). A note is a Python dictionary, which its readers access
  with \<^verbatim>\<open>note.get(key, default)\<close> as well as with \<^verbatim>\<open>note[key]\<close>, so every field but
  \<^verbatim>\<open>_id\<close> is optional in the type: \<open>None\<close> is a dictionary without that key. The notes
  the program stores carry all of them (\<open>stored_notes_have_fields\<close> below). The two time stamps
  \<^verbatim>\<open>created_at\<close> and \<^verbatim>\<open>updated_at\<close> are wall-clock readings that no operation modelled
  below reads back; they are left out.
\<close>

record note_doc =
  note_id :: int
  title :: "string option"
  content :: "string option"
  tags :: "string list option"
  workspace :: "string option"

text \<open>
  The \<^verbatim>\<open>updates\<close> dictionary of \<^verbatim>\<open>edit_note\<close>: one optional entry per note field
  (\<open>None\<close>: the key is not in the dictionary).
\<close>

record updates =
  u_title :: "string option"
  u_content :: "string option"
  u_tags :: "string list option"
  u_workspace :: "string option"

text \<open>The exceptions that the modelled functions raise, as values.\<close>

datatype error =
    TranscriptionFailed
  | EmbeddingFailed
  | DuplicateKeyError int
  | KeyError string
  | EnvironmentError
  | OSError

text \<open>The files that the agent actions write.\<close>

datatype out_file = EventFile int | RemindersFile | WhatsappLog | ShareFile int

text \<open>The messages printed by the agent engine (debug output is left out).\<close>

datatype message =
    AgentsConfigNotFound
  | UnknownAction string
  | CalendarAdded string
  | CalendarFailed error
  | WhatsappShared string
  | WhatsappFailed error
  | Rephrased int
  | RephraseFailed int error
  | TagsSuggested int "string list"
  | SuggestTagsFailed int error
  | GeminiError string

text \<open>
  Every call that leaves the process (database, vector index, embedding model, speech
  recognition, generative model, file system, console) is recorded, in program order, in
  the \<open>trace\<close> of the state. The trace is how the order of effects and the absence of a
  call are stated.
\<close>

datatype call =
    Transcribe string
  | Encode string
  | IndexAdd int
  | IndexRemove int
  | IndexSearch nat
  | CounterInc
  | DbInsert int
  | DbUpdate int
  | DbDelete int
  | DbFindIn "int list"
  | DbTextSearch string
  | Generate string
  | FileWrite out_file
  | Print message

text \<open>
  The collaborators the repository does not implement, as parameters:
  \<^item> \<open>transcribe\<close>: the speech recogniser on an audio path (\<open>None\<close>: it raises);
  \<^item> \<open>encode\<close>: the sentence-embedding model (\<open>None\<close>: it raises);
  \<^item> \<open>distance\<close>: the distance of the vector index between two embeddings;
  \<^item> \<open>text_match\<close>: the database's \<^verbatim>\<open>$text\<close> query on a note;
  \<^item> \<open>generate\<close>: the generative model on a prompt (\<open>None\<close>: it raises);
  \<^item> \<open>api_key\<close>: what \<^verbatim>\<open>os.getenv("GEMINI_API_KEY", "default_key")\<close> returns;
  \<^item> \<open>write_ok\<close>: whether writing the given file succeeds;
  \<^item> \<open>format_context\<close>: the text block built from the notes handed to the model
    (the loop of \<^verbatim>\<open>ask_question\<close> that prints counters and dates);
  \<^item> \<open>agents_config\<close>: the rules read from \<^verbatim>\<open>mcp/agents.json\<close>, in file order
    (\<open>None\<close>: the file does not exist);
  \<^item> \<open>str_strip\<close>: Python's \<^verbatim>\<open>str.strip()\<close>, which removes the white space of the
    Unicode database from both ends of a string.
\<close>

text \<open>
  One entry of \<^verbatim>\<open>agents.json\<close>. \<^verbatim>\<open>agent_config.get("trigger")\<close> and
  \<^verbatim>\<open>agent_config.get("action")\<close> are \<open>None\<close> for an entry without the key.
\<close>

record rule =
  rule_name :: string
  rule_trigger :: "string option"
  rule_action :: "string option"

record ('e, 'd) env =
  transcribe :: "string \<Rightarrow> string option"
  encode :: "string \<Rightarrow> 'e option"
  distance :: "'e \<Rightarrow> 'e \<Rightarrow> 'd"
  text_match :: "string \<Rightarrow> note_doc \<Rightarrow> bool"
  generate :: "string \<Rightarrow> string option"
  api_key :: string
  write_ok :: "out_file \<Rightarrow> bool"
  format_context :: "note_doc list \<Rightarrow> string"
  agents_config :: "rule list option"
  str_strip :: "string \<Rightarrow> string"

text \<open>
  The state of one process and its stores: the \<^verbatim>\<open>notes\<close> collection in storage order,
  the \<^verbatim>\<open>seq\<close> value of the \<^verbatim>\<open>note_id\<close> counter document (0 when the document does not
  exist yet: the upsert creates it with \<^verbatim>\<open>$inc\<close>), the rows of the vector index in
  insertion order, the module globals \<^verbatim>\<open>_index_modified\<close>, \<^verbatim>\<open>_gemini_configured\<close> and
  \<^verbatim>\<open>_qa_cache\<close>, and the trace.
\<close>

record 'e state =
  db_notes :: "note_doc list"
  counter_seq :: int
  index_entries :: "(int \<times> 'e) list"
  index_modified :: bool
  gemini_configured :: bool
  qa_cache :: "string \<rightharpoonup> string"
  trace :: "call list"

definition init_state :: "'e state" where
  "init_state = \<lparr>db_notes = [], counter_seq = 0, index_entries = [], index_modified = False,
     gemini_configured = False, qa_cache = Map.empty, trace = []\<rparr>"

definition emit :: "call \<Rightarrow> 'e state \<Rightarrow> 'e state" where
  "emit c s = s\<lparr>trace := trace s @ [c]\<rparr>"

section \<open>Vector index (modules/search\_engine.py)\<close>

text \<open>
  The index is \<^verbatim>\<open>faiss.IndexIDMap2(faiss.IndexFlatL2(384))\<close>: a flat table of rows
  (identifier, vector). The library is not part of the repository. Its three calls used
  here are modelled on the table of rows:
  \<^item> \<^verbatim>\<open>add_with_ids\<close> appends a row (the vector to the flat store, the identifier to
    the identifier map) and never looks at the identifiers already stored, which is why
    \<^verbatim>\<open>edit_note\<close> removes an identifier before it adds it again;
  \<^item> \<^verbatim>\<open>remove_ids\<close> deletes every row whose identifier is selected and keeps the order
    of the others; an identifier that is not stored removes nothing;
  \<^item> \<^verbatim>\<open>search\<close> is \<open>index_search\<close> below.
  The index is taken as loaded (\<^verbatim>\<open>load_index\<close> reads or creates it on first use);
  \<^verbatim>\<open>save_index\<close> is not modelled.
\<close>

definition add_with_ids :: "int \<Rightarrow> 'e \<Rightarrow> (int \<times> 'e) list \<Rightarrow> (int \<times> 'e) list" where
  "add_with_ids i v rows = rows @ [(i, v)]"

definition remove_ids :: "int \<Rightarrow> (int \<times> 'e) list \<Rightarrow> (int \<times> 'e) list" where
  "remove_ids i rows = filter (\<lambda>r. fst r \<noteq> i) rows"

text \<open>
  Modelled from the spec: the k-nearest-neighbour search of the vector-index library
  (\<^verbatim>\<open>idx.search\<close>), which is not part of the repository. It returns one row of exactly
  \<open>k\<close> labels: the identifiers of the stored vectors by ascending distance to the query,
  ties in insertion order (\<open>sort_key\<close> is a stable insertion sort), filled up with the
  sentinel \<open>-1\<close> when fewer than \<open>k\<close> vectors are stored.
\<close>

definition index_search ::
  "('e \<Rightarrow> 'e \<Rightarrow> 'd::linorder) \<Rightarrow> (int \<times> 'e) list \<Rightarrow> 'e \<Rightarrow> nat \<Rightarrow> int list" where
  "index_search dist rows q k =
     (let ranked = map fst (sort_key (\<lambda>r. dist q (snd r)) rows)
      in take k ranked @ replicate (k - length ranked) (- 1))"

definition add_note_to_index ::
  "('e, 'd) env \<Rightarrow> int \<Rightarrow> string \<Rightarrow> 'e state \<Rightarrow> (error + unit) \<times> 'e state" where
  "add_note_to_index env nid text s =
     (let s1 = emit (Encode text) s in
      case encode env text of
        None \<Rightarrow> (Inl EmbeddingFailed, s1)
      | Some v \<Rightarrow>
          (Inr (), emit (IndexAdd nid)
             (s1\<lparr>index_entries := add_with_ids nid v (index_entries s1),
                 index_modified := True\<rparr>)))"

definition remove_note_from_index :: "int \<Rightarrow> 'e state \<Rightarrow> 'e state" where
  "remove_note_from_index nid s =
     emit (IndexRemove nid)
       (s\<lparr>index_entries := remove_ids nid (index_entries s), index_modified := True\<rparr>)"

definition search_similar_notes ::
  "('e, 'd::linorder) env \<Rightarrow> string \<Rightarrow> nat \<Rightarrow> 'e state \<Rightarrow> (error + int list) \<times> 'e state" where
  "search_similar_notes env query k s =
     (let s1 = emit (Encode query) s in
      case encode env query of
        None \<Rightarrow> (Inl EmbeddingFailed, s1)
      | Some q \<Rightarrow>
          (let indices = index_search (distance env) (index_entries s1) q k
           in (Inr (filter (\<lambda>i. i \<noteq> - 1) indices), emit (IndexSearch k) s1)))"

definition full_text_search ::
  "('e, 'd) env \<Rightarrow> string \<Rightarrow> 'e state \<Rightarrow> note_doc list \<times> 'e state" where
  "full_text_search env query s =
     (filter (text_match env query) (db_notes s), emit (DbTextSearch query) s)"

section \<open>Database calls (pymongo collections)\<close>

text \<open>
  \<^verbatim>\<open>insert_one\<close> raises on a duplicate \<^verbatim>\<open>_id\<close>; \<^verbatim>\<open>update_one\<close> and \<^verbatim>\<open>delete_one\<close> act on
  the first document that matches \<^verbatim>\<open>{"_id": id}\<close> and report how many documents they
  changed: an update that stores the values already there modifies none. The calls
  themselves always answer (a lost connection is not modelled). \<^verbatim>\<open>full_text_search\<close>
  first makes sure the text index exists, which changes no note.
\<close>

definition get_next_note_id :: "'e state \<Rightarrow> int \<times> 'e state" where
  "get_next_note_id s =
     (counter_seq s + 1, emit CounterInc (s\<lparr>counter_seq := counter_seq s + 1\<rparr>))"

definition insert_one :: "note_doc \<Rightarrow> 'e state \<Rightarrow> (error + unit) \<times> 'e state" where
  "insert_one n s =
     (let s1 = emit (DbInsert (note_id n)) s in
      if note_id n \<in> set (map note_id (db_notes s)) then (Inl (DuplicateKeyError (note_id n)), s1)
      else (Inr (), s1\<lparr>db_notes := db_notes s1 @ [n]\<rparr>))"

definition apply_set :: "updates \<Rightarrow> note_doc \<Rightarrow> note_doc" where
  "apply_set u n =
     n\<lparr>title := (case u_title u of None \<Rightarrow> title n | Some t \<Rightarrow> Some t),
       content := (case u_content u of None \<Rightarrow> content n | Some c \<Rightarrow> Some c),
       tags := (case u_tags u of None \<Rightarrow> tags n | Some t \<Rightarrow> Some t),
       workspace := (case u_workspace u of None \<Rightarrow> workspace n | Some w \<Rightarrow> Some w)\<rparr>"

fun update_first :: "int \<Rightarrow> updates \<Rightarrow> note_doc list \<Rightarrow> note_doc list \<times> nat" where
  "update_first i u [] = ([], 0)"
| "update_first i u (n # ns) =
     (if note_id n = i then (apply_set u n # ns, if apply_set u n = n then 0 else 1)
      else (n # fst (update_first i u ns), snd (update_first i u ns)))"

fun delete_first :: "int \<Rightarrow> note_doc list \<Rightarrow> note_doc list \<times> nat" where
  "delete_first i [] = ([], 0)"
| "delete_first i (n # ns) =
     (if note_id n = i then (ns, 1)
      else (n # fst (delete_first i ns), snd (delete_first i ns)))"

definition update_one :: "int \<Rightarrow> updates \<Rightarrow> 'e state \<Rightarrow> nat \<times> 'e state" where
  "update_one i u s =
     (snd (update_first i u (db_notes s)),
      emit (DbUpdate i) (s\<lparr>db_notes := fst (update_first i u (db_notes s))\<rparr>))"

definition delete_one :: "int \<Rightarrow> 'e state \<Rightarrow> nat \<times> 'e state" where
  "delete_one i s =
     (snd (delete_first i (db_notes s)),
      emit (DbDelete i) (s\<lparr>db_notes := fst (delete_first i (db_notes s))\<rparr>))"

section \<open>Note repository (modules/note\_crud.py, modules/audio\_to\_text.py)\<close>

definition transcribe_audio ::
  "('e, 'd) env \<Rightarrow> string \<Rightarrow> 'e state \<Rightarrow> (error + string) \<times> 'e state" where
  "transcribe_audio env audio_path s =
     (case transcribe env audio_path of
        None \<Rightarrow> (Inl TranscriptionFailed, emit (Transcribe audio_path) s)
      | Some text \<Rightarrow> (Inr text, emit (Transcribe audio_path) s))"

text \<open>
  \<^verbatim>\<open>add_note(db, title, content, tags, workspace, audio_path)\<close>. \<open>tags\<close>, \<open>workspace\<close> and
  \<open>audio_path\<close> are optional as in the source (\<open>None\<close> is Python's \<^verbatim>\<open>None\<close>);
  \<^verbatim>\<open>if audio_path:\<close> also skips the empty string. \<open>content\<close> is the string every caller
  passes.
\<close>

definition add_note ::
  "('e, 'd) env \<Rightarrow> string \<Rightarrow> string \<Rightarrow> string list option \<Rightarrow> string option \<Rightarrow> string option
     \<Rightarrow> 'e state \<Rightarrow> (error + int) \<times> 'e state" where
  "add_note env ttl cnt tgs wsp audio_path s =
     (case (case audio_path of
              None \<Rightarrow> (Inr cnt, s)
            | Some p \<Rightarrow> if p = [] then (Inr cnt, s) else transcribe_audio env p s) of
        (Inl e, s1) \<Rightarrow> (Inl e, s1)
      | (Inr cnt', s1) \<Rightarrow>
          (let tgs' = (case tgs of None \<Rightarrow> [] | Some t \<Rightarrow> t);
               wsp' = (case wsp of None \<Rightarrow> ''default'' | Some w \<Rightarrow> w);
               nid = fst (get_next_note_id s1);
               s2 = snd (get_next_note_id s1);
               n = \<lparr>note_id = nid, title = Some ttl, content = Some cnt', tags = Some tgs',
                     workspace = Some wsp'\<rparr>
           in case insert_one n s2 of
                (Inl e, s3) \<Rightarrow> (Inl e, s3)
              | (Inr _, s3) \<Rightarrow>
                  (case add_note_to_index env nid cnt' s3 of
                     (Inl e, s4) \<Rightarrow> (Inl e, s4)
                   | (Inr _, s4) \<Rightarrow> (Inr nid, s4))))"

definition delete_note :: "int \<Rightarrow> 'e state \<Rightarrow> nat \<times> 'e state" where
  "delete_note nid s =
     (case delete_one nid s of
        (deleted_count, s1) \<Rightarrow>
          (deleted_count, if deleted_count \<noteq> 0 then remove_note_from_index nid s1 else s1))"

definition edit_note ::
  "('e, 'd) env \<Rightarrow> int \<Rightarrow> updates \<Rightarrow> 'e state \<Rightarrow> (error + nat) \<times> 'e state" where
  "edit_note env nid u s =
     (let s1 = (if u_content u \<noteq> None then remove_note_from_index nid s else s)
      in case update_one nid u s1 of
           (modified_count, s2) \<Rightarrow>
             (case u_content u of
                None \<Rightarrow> (Inr modified_count, s2)
              | Some c \<Rightarrow>
                  if modified_count \<noteq> 0
                  then (case add_note_to_index env nid c s2 of
                          (Inl e, s3) \<Rightarrow> (Inl e, s3)
                        | (Inr _, s3) \<Rightarrow> (Inr modified_count, s3))
                  else (Inr modified_count, s2)))"

section \<open>Question answering (modules/gemini\_client.py)\<close>

definition ensure_gemini :: "('e, 'd) env \<Rightarrow> 'e state \<Rightarrow> (error + unit) \<times> 'e state" where
  "ensure_gemini env s =
     (if \<not> gemini_configured s
      then (if api_key env = [] then (Inl EnvironmentError, s)
            else (Inr (), s\<lparr>gemini_configured := True\<rparr>))
      else (Inr (), s))"

definition ai_response_failed :: string where
  "ai_response_failed = ''[AI response failed]''"

text \<open>
  \<^verbatim>\<open>generate_response(prompt)\<close>; every caller leaves \<^verbatim>\<open>use_web_search\<close> at \<^verbatim>\<open>False\<close>.
  \<^verbatim>\<open>_ensure_gemini()\<close> stands before the \<^verbatim>\<open>try\<close>, so its error is raised; an error of the
  model call is caught and turned into the sentinel text.
\<close>

definition generate_response ::
  "('e, 'd) env \<Rightarrow> string \<Rightarrow> 'e state \<Rightarrow> (error + string) \<times> 'e state" where
  "generate_response env prompt s =
     (case ensure_gemini env s of
        (Inl e, s1) \<Rightarrow> (Inl e, s1)
      | (Inr _, s1) \<Rightarrow>
          (case generate env prompt of
             Some txt \<Rightarrow> (Inr txt, emit (Generate prompt) s1)
           | None \<Rightarrow>
               (Inr ai_response_failed,
                emit (Print (GeminiError prompt)) (emit (Generate prompt) s1))))"

definition no_match_response :: string where
  "no_match_response =
     ''I couldn't find any notes that match your question. Please try adding some notes first or rephrase your question.''"

definition find_in :: "int list \<Rightarrow> 'e state \<Rightarrow> note_doc list \<times> 'e state" where
  "find_in ids s = (filter (\<lambda>n. note_id n \<in> set ids) (db_notes s), emit (DbFindIn ids) s)"

text \<open>
  The first half of \<^verbatim>\<open>ask_question\<close> (and of \<^verbatim>\<open>ask_question_web\<close>): both searches, the
  bulk fetch of the semantic hits, and the list \<^verbatim>\<open>relevant_notes\<close> built from them. The
  result carries \<^verbatim>\<open>similar_note_ids\<close>, \<^verbatim>\<open>full_text_results\<close> and \<^verbatim>\<open>relevant_notes\<close>.
\<close>

definition relevant_notes ::
  "('e, 'd::linorder) env \<Rightarrow> string \<Rightarrow> nat \<Rightarrow> 'e state
     \<Rightarrow> (error + int list \<times> note_doc list \<times> note_doc list) \<times> 'e state" where
  "relevant_notes env question k s =
     (case search_similar_notes env question k s of
        (Inl e, s1) \<Rightarrow> (Inl e, s1)
      | (Inr similar_note_ids, s1) \<Rightarrow>
          (case full_text_search env question s1 of
             (full_text_results, s2) \<Rightarrow>
               (case (if similar_note_ids \<noteq> [] then find_in similar_note_ids s2 else ([], s2)) of
                  (semantic_notes, s3) \<Rightarrow>
                    (Inr (similar_note_ids, full_text_results,
                          semantic_notes
                          @ filter (\<lambda>n. note_id n \<notin> set similar_note_ids) full_text_results),
                     s3))))"

definition make_prompt :: "('e, 'd) env \<Rightarrow> note_doc list \<Rightarrow> string \<Rightarrow> string" where
  "make_prompt env ns question =
     format_context env ns @ [CHR 0x0A, CHR 0x0A] @ ''Question: '' @ question
     @ [CHR 0x0A, CHR 0x0A]
     @ ''Please answer the question based on the notes provided above. If the notes don't contain enough information to answer the question, please say so.''"

definition ask_question ::
  "('e, 'd::linorder) env \<Rightarrow> string \<Rightarrow> nat \<Rightarrow> 'e state \<Rightarrow> (error + string) \<times> 'e state" where
  "ask_question env question k s =
     (case qa_cache s question of
        Some answer \<Rightarrow> (Inr answer, s)
      | None \<Rightarrow>
          (case relevant_notes env question k s of
             (Inl e, s1) \<Rightarrow> (Inl e, s1)
           | (Inr (similar_note_ids, full_text_results, relevant), s1) \<Rightarrow>
               if relevant = []
               then (Inr no_match_response,
                     s1\<lparr>qa_cache := (qa_cache s1)(question \<mapsto> no_match_response)\<rparr>)
               else (case generate_response env (make_prompt env (take k relevant) question) s1 of
                       (Inl e, s2) \<Rightarrow> (Inl e, s2)
                     | (Inr response, s2) \<Rightarrow>
                         (Inr response,
                          s2\<lparr>qa_cache := (qa_cache s2)(question \<mapsto> response)\<rparr>))))"

section \<open>Agent trigger engine (agent\_runner.py)\<close>

definition note_tags :: "note_doc \<Rightarrow> string list" where
  "note_tags n = (case tags n of None \<Rightarrow> [] | Some ts \<Rightarrow> ts)"

definition check_trigger :: "string \<Rightarrow> note_doc \<Rightarrow> bool" where
  "check_trigger trigger n =
     (if take 4 trigger = ''tag:''
      then (let tag_condition = drop 4 trigger
            in if tag_condition = ''[]''
               then (case tags n of None \<Rightarrow> True | Some ts \<Rightarrow> ts = [])
               else tag_condition \<in> set (note_tags n))
      else False)"

text \<open>
  Writing a file inside a \<^verbatim>\<open>try\<close> block (creating the directory of the event file is
  part of writing it).
\<close>

definition write_file ::
  "('e, 'd) env \<Rightarrow> out_file \<Rightarrow> 'e state \<Rightarrow> (error + unit) \<times> 'e state" where
  "write_file env f s =
     (if write_ok env f then (Inr (), emit (FileWrite f) s) else (Inl OSError, s))"

text \<open>
  Each action is split as the source is: the statements before \<^verbatim>\<open>try\<close> (an error there
  is raised to the caller), the body of the \<^verbatim>\<open>try\<close> (the functions named \<open>_try\<close>), and
  the \<^verbatim>\<open>except Exception\<close> clause, which prints and returns.
\<close>

definition add_to_calendar_try ::
  "('e, 'd) env \<Rightarrow> note_doc \<Rightarrow> string \<Rightarrow> 'e state \<Rightarrow> (error + unit) \<times> 'e state" where
  "add_to_calendar_try env n ttl s =
     (case write_file env (EventFile (note_id n)) s of
        (Inl e, s1) \<Rightarrow> (Inl e, s1)
      | (Inr _, s1) \<Rightarrow>
          (case write_file env RemindersFile s1 of
             (Inl e, s2) \<Rightarrow> (Inl e, s2)
           | (Inr _, s2) \<Rightarrow> (Inr (), emit (Print (CalendarAdded ttl)) s2)))"

definition add_to_calendar ::
  "('e, 'd) env \<Rightarrow> note_doc \<Rightarrow> 'e state \<Rightarrow> (error + unit) \<times> 'e state" where
  "add_to_calendar env n s =
     (case title n of
        None \<Rightarrow> (Inl (KeyError ''title''), s)
      | Some ttl \<Rightarrow>
          (case content n of
             None \<Rightarrow> (Inl (KeyError ''content''), s)
           | Some cnt \<Rightarrow>
               (case add_to_calendar_try env n ttl s of
                  (Inl e, s1) \<Rightarrow> (Inr (), emit (Print (CalendarFailed e)) s1)
                | (Inr _, s1) \<Rightarrow> (Inr (), s1))))"

definition share_to_whatsapp_try ::
  "('e, 'd) env \<Rightarrow> note_doc \<Rightarrow> string \<Rightarrow> 'e state \<Rightarrow> (error + unit) \<times> 'e state" where
  "share_to_whatsapp_try env n ttl s =
     (case write_file env WhatsappLog s of
        (Inl e, s1) \<Rightarrow> (Inl e, s1)
      | (Inr _, s1) \<Rightarrow>
          (case write_file env (ShareFile (note_id n)) s1 of
             (Inl e, s2) \<Rightarrow> (Inl e, s2)
           | (Inr _, s2) \<Rightarrow> (Inr (), emit (Print (WhatsappShared ttl)) s2)))"

definition share_to_whatsapp ::
  "('e, 'd) env \<Rightarrow> note_doc \<Rightarrow> 'e state \<Rightarrow> (error + unit) \<times> 'e state" where
  "share_to_whatsapp env n s =
     (case title n of
        None \<Rightarrow> (Inl (KeyError ''title''), s)
      | Some ttl \<Rightarrow>
          (case content n of
             None \<Rightarrow> (Inl (KeyError ''content''), s)
           | Some cnt \<Rightarrow>
               (case share_to_whatsapp_try env n ttl s of
                  (Inl e, s1) \<Rightarrow> (Inr (), emit (Print (WhatsappFailed e)) s1)
                | (Inr _, s1) \<Rightarrow> (Inr (), s1))))"

definition rephrase_note_try ::
  "('e, 'd) env \<Rightarrow> note_doc \<Rightarrow> 'e state \<Rightarrow> (error + unit) \<times> 'e state" where
  "rephrase_note_try env n s =
     (case content n of
        None \<Rightarrow> (Inl (KeyError ''content''), s)
      | Some cnt \<Rightarrow>
          (case generate_response env (''Rephrase the following note: '' @ cnt) s of
             (Inl e, s1) \<Rightarrow> (Inl e, s1)
           | (Inr new_content, s1) \<Rightarrow>
               (case update_one (note_id n)
                       \<lparr>u_title = None, u_content = Some new_content, u_tags = None,
                          u_workspace = None\<rparr> s1 of
                  (m, s2) \<Rightarrow> (Inr (), emit (Print (Rephrased (note_id n))) s2))))"

definition rephrase_note ::
  "('e, 'd) env \<Rightarrow> note_doc \<Rightarrow> 'e state \<Rightarrow> (error + unit) \<times> 'e state" where
  "rephrase_note env n s =
     (case rephrase_note_try env n s of
        (Inl e, s1) \<Rightarrow> (Inr (), emit (Print (RephraseFailed (note_id n) e)) s1)
      | (Inr _, s1) \<Rightarrow> (Inr (), s1))"

text \<open>\<^verbatim>\<open>str.split(",")\<close>.\<close>

fun split_on :: "char \<Rightarrow> string \<Rightarrow> string list" where
  "split_on c [] = [[]]"
| "split_on c (x # xs) =
     (if x = c then [] # split_on c xs
      else (case split_on c xs of [] \<Rightarrow> [[x]] | w # ws \<Rightarrow> (x # w) # ws))"

text \<open>
  \<^verbatim>\<open>list(set(current_tags + suggested_tags))\<close>: the order of a Python set is not
  specified; \<open>remdups\<close> fixes one.
\<close>

definition suggest_tags_try ::
  "('e, 'd) env \<Rightarrow> note_doc \<Rightarrow> 'e state \<Rightarrow> (error + unit) \<times> 'e state" where
  "suggest_tags_try env n s =
     (case content n of
        None \<Rightarrow> (Inl (KeyError ''content''), s)
      | Some cnt \<Rightarrow>
          (case generate_response env (''Suggest 1 to 3 tags for this note: '' @ cnt) s of
             (Inl e, s1) \<Rightarrow> (Inl e, s1)
           | (Inr response, s1) \<Rightarrow>
               (let suggested_tags = map (str_strip env) (split_on CHR '','' response);
                    new_tags = remdups (note_tags n @ suggested_tags)
                in case update_one (note_id n)
                          \<lparr>u_title = None, u_content = None, u_tags = Some new_tags,
                             u_workspace = None\<rparr> s1 of
                     (m, s2) \<Rightarrow>
                       (Inr (), emit (Print (TagsSuggested (note_id n) suggested_tags)) s2))))"

definition suggest_tags ::
  "('e, 'd) env \<Rightarrow> note_doc \<Rightarrow> 'e state \<Rightarrow> (error + unit) \<times> 'e state" where
  "suggest_tags env n s =
     (case suggest_tags_try env n s of
        (Inl e, s1) \<Rightarrow> (Inr (), emit (Print (SuggestTagsFailed (note_id n) e)) s1)
      | (Inr _, s1) \<Rightarrow> (Inr (), s1))"

definition action_functions ::
  "string \<Rightarrow> (('e, 'd) env \<Rightarrow> note_doc \<Rightarrow> 'e state \<Rightarrow> (error + unit) \<times> 'e state) option" where
  "action_functions a =
     (if a = ''calendar_event'' then Some add_to_calendar
      else if a = ''share_to_whatsapp'' then Some share_to_whatsapp
      else if a = ''rephrase_with_gemini'' then Some rephrase_note
      else if a = ''suggest_tags'' then Some suggest_tags
      else None)"

definition perform_action ::
  "('e, 'd) env \<Rightarrow> string \<Rightarrow> note_doc \<Rightarrow> 'e state \<Rightarrow> (error + unit) \<times> 'e state" where
  "perform_action env action n s =
     (case action_functions action of
        Some func \<Rightarrow> func env n s
      | None \<Rightarrow> (Inr (), emit (Print (UnknownAction action)) s))"

text \<open>
  The loop of \<^verbatim>\<open>run_agents\<close> over \<^verbatim>\<open>agents.items()\<close>: \<^verbatim>\<open>if trigger and action:\<close> asks for
  both to be present and not empty. The loop has no \<^verbatim>\<open>try\<close>: an error of
  \<^verbatim>\<open>perform_action\<close> ends it.
\<close>

fun run_rules ::
  "('e, 'd) env \<Rightarrow> rule list \<Rightarrow> note_doc \<Rightarrow> 'e state \<Rightarrow> (error + unit) \<times> 'e state" where
  "run_rules env [] n s = (Inr (), s)"
| "run_rules env (r # rs) n s =
     (case rule_trigger r of
        None \<Rightarrow> run_rules env rs n s
      | Some trigger \<Rightarrow>
          (case rule_action r of
             None \<Rightarrow> run_rules env rs n s
           | Some action \<Rightarrow>
               if trigger \<noteq> [] \<and> action \<noteq> [] \<and> check_trigger trigger n
               then (case perform_action env action n s of
                       (Inl e, s1) \<Rightarrow> (Inl e, s1)
                     | (Inr _, s1) \<Rightarrow> run_rules env rs n s1)
               else run_rules env rs n s))"

definition run_agents ::
  "('e, 'd) env \<Rightarrow> note_doc \<Rightarrow> 'e state \<Rightarrow> (error + unit) \<times> 'e state" where
  "run_agents env n s =
     (case agents_config env of
        None \<Rightarrow> (Inr (), emit (Print AgentsConfigNotFound) s)
      | Some agents \<Rightarrow> run_rules env agents n s)"

section \<open>Concrete collaborators for the examples\<close>

text \<open>
  An environment for the worked examples: the recogniser understands one recording, the
  embedding of a text is its length, the distance is the absolute difference, the text
  query matches a note whose content is the query, the generative model is down,
  every file can be written, and the texts to strip carry blanks only.
\<close>

definition demo_env :: "(nat, nat) env" where
  "demo_env =
     \<lparr>transcribe = (\<lambda>p. if p = ''memo.wav'' then Some ''spoken words'' else None),
      encode = (\<lambda>t. Some (length t)),
      distance = (\<lambda>a b. if a \<le> b then b - a else a - b),
      text_match = (\<lambda>q n. content n = Some q),
      generate = (\<lambda>p. None),
      api_key = ''default_key'',
      write_ok = (\<lambda>f. True),
      format_context =
        (\<lambda>ns. concat (map (\<lambda>n. case title n of None \<Rightarrow> ''Untitled'' | Some t \<Rightarrow> t) ns)),
      agents_config =
        Some [\<lparr>rule_name = ''calendar'', rule_trigger = Some ''tag:reminder'',
                 rule_action = Some ''calendar_event''\<rparr>,
              \<lparr>rule_name = ''share'', rule_trigger = Some ''tag:reminder'',
                 rule_action = Some ''share_to_whatsapp''\<rparr>],
      str_strip =
        (\<lambda>w. rev (dropWhile (\<lambda>c. c = CHR '' '') (rev (dropWhile (\<lambda>c. c = CHR '' '') w))))\<rparr>"

section \<open>Notions used in the statements\<close>

text \<open>The rows of the index for one identifier, and the calls made between two states.\<close>

definition entries_for :: "int \<Rightarrow> 'e state \<Rightarrow> (int \<times> 'e) list" where
  "entries_for nid s = filter (\<lambda>r. fst r = nid) (index_entries s)"

definition new_calls :: "'e state \<Rightarrow> 'e state \<Rightarrow> call list" where
  "new_calls s s' = drop (length (trace s)) (trace s')"

text \<open>
  A sequence of calls of the note repository: each operation runs on the state its
  predecessor left, whether that one returned or raised.
\<close>

datatype op =
    Create string string "string list option" "string option" "string option"
  | Update int updates
  | Delete int

fun apply_op :: "('e, 'd) env \<Rightarrow> op \<Rightarrow> 'e state \<Rightarrow> 'e state" where
  "apply_op env (Create ttl cnt tgs wsp audio_path) s =
     snd (add_note env ttl cnt tgs wsp audio_path s)"
| "apply_op env (Update nid u) s = snd (edit_note env nid u s)"
| "apply_op env (Delete nid) s = snd (delete_note nid s)"

fun run_ops :: "('e, 'd) env \<Rightarrow> op list \<Rightarrow> 'e state \<Rightarrow> 'e state" where
  "run_ops env [] s = s"
| "run_ops env (x # xs) s = run_ops env xs (apply_op env x s)"

definition note_ids :: "'e state \<Rightarrow> int list" where
  "note_ids s = map note_id (db_notes s)"

definition indexed_ids :: "'e state \<Rightarrow> int list" where
  "indexed_ids s = map fst (index_entries s)"

definition has_content :: "note_doc \<Rightarrow> bool" where
  "has_content n = (case content n of None \<Rightarrow> False | Some c \<Rightarrow> c \<noteq> [])"

text \<open>
  The invariant as the specification words it: the identifiers in the index are those of
  the stored notes with non-empty content.
\<close>

definition index_matches_nonempty_content :: "'e state \<Rightarrow> bool" where
  "index_matches_nonempty_content s =
     (set (indexed_ids s) = set (map note_id (filter has_content (db_notes s))))"






definition content_update :: "string \<Rightarrow> updates" where
  "content_update c = \<lparr>u_title = None, u_content = Some c, u_tags = None, u_workspace = None\<rparr>"


definition slip_ops :: "op list" where
  "slip_ops = [Create ''T'' ''same'' None None None, Update 1 (content_update ''same'')]"

text \<open>
  \<open>fires\<close> is the condition under which the loop of \<^verbatim>\<open>run_agents\<close> calls
  \<^verbatim>\<open>perform_action\<close> for a rule.
\<close>

definition fires :: "rule \<Rightarrow> note_doc \<Rightarrow> bool" where
  "fires r n =
     (case rule_trigger r of
        None \<Rightarrow> False
      | Some trigger \<Rightarrow>
          (case rule_action r of
             None \<Rightarrow> False
           | Some action \<Rightarrow> trigger \<noteq> [] \<and> action \<noteq> [] \<and> check_trigger trigger n))"

text \<open>
  What an agent run shows to its user: each action prints one line when it ends, whether
  it succeeded or its \<^verbatim>\<open>except\<close> clause caught a failure, and \<^verbatim>\<open>perform_action\<close> prints one
  line for an action it does not know. \<open>outcome_action\<close> reads from such a line the action
  that printed it; every other call of the trace (a file written, a prompt sent, a record
  updated) gives \<open>None\<close>.
\<close>

definition outcome_action :: "call \<Rightarrow> string option" where
  "outcome_action c =
     (case c of
        Print m \<Rightarrow>
          (case m of
             UnknownAction a \<Rightarrow> Some a
           | CalendarAdded t \<Rightarrow> Some ''calendar_event''
           | CalendarFailed e \<Rightarrow> Some ''calendar_event''
           | WhatsappShared t \<Rightarrow> Some ''share_to_whatsapp''
           | WhatsappFailed e \<Rightarrow> Some ''share_to_whatsapp''
           | Rephrased i \<Rightarrow> Some ''rephrase_with_gemini''
           | RephraseFailed i e \<Rightarrow> Some ''rephrase_with_gemini''
           | TagsSuggested i ts \<Rightarrow> Some ''suggest_tags''
           | SuggestTagsFailed i e \<Rightarrow> Some ''suggest_tags''
           | _ \<Rightarrow> None)
      | _ \<Rightarrow> None)"

text \<open>
  \<open>logs s as s'\<close>: the trace of \<open>s'\<close> is the trace of \<open>s\<close> followed by calls whose
  outcome lines come from the actions \<open>as\<close>, in that order.
\<close>

definition logs :: "'e state \<Rightarrow> string list \<Rightarrow> 'e state \<Rightarrow> bool" where
  "logs s as s' =
     (take (length (trace s)) (trace s') = trace s
      \<and> List.map_filter outcome_action (new_calls s s') = as)"

text \<open>
  The actions of the rules that fire for a note, in the order of the configuration, and
  the actions of the rules whose trigger is the empty-tag marker.
\<close>

definition fired_actions :: "rule list \<Rightarrow> note_doc \<Rightarrow> string list" where
  "fired_actions rules n =
     List.map_filter (\<lambda>r. if fires r n then rule_action r else None) rules"


text \<open>
  A note as the program stores it: \<^verbatim>\<open>add_note\<close> writes both \<^verbatim>\<open>title\<close> and \<^verbatim>\<open>content\<close>, and an
  update sets fields and removes none.
\<close>

definition stored_fields :: "note_doc \<Rightarrow> bool" where
  "stored_fields n = (title n \<noteq> None \<and> content n \<noteq> None)"

definition notes_wf :: "'e state \<Rightarrow> bool" where
  "notes_wf s = list_all stored_fields (db_notes s)"

text \<open>
  What one process does after another: repository operations, questions and agent
  runs, each with the collaborators as they behave at that moment.
\<close>

datatype command = Repo op | Ask string nat | Agents note_doc

fun exec :: "('e, 'd::linorder) env \<Rightarrow> command \<Rightarrow> 'e state \<Rightarrow> 'e state" where
  "exec env (Repo x) s = apply_op env x s"
| "exec env (Ask question k) s = snd (ask_question env question k s)"
| "exec env (Agents n) s = snd (run_agents env n s)"

fun exec_all :: "(('e, 'd::linorder) env \<times> command) list \<Rightarrow> 'e state \<Rightarrow> 'e state" where
  "exec_all [] s = s"
| "exec_all (c # cs) s = exec_all cs (exec (fst c) (snd c) s)"

text \<open>Stores and notes for the worked examples.\<close>

definition milk_note :: "int \<Rightarrow> note_doc" where
  "milk_note i = \<lparr>note_id = i, title = Some ''groceries'', content = Some ''milk'',
     tags = Some [], workspace = Some ''default''\<rparr>"

definition walk_note :: note_doc where
  "walk_note = \<lparr>note_id = 2, title = Some ''plan'', content = Some ''walk in the park'',
     tags = Some [''work''], workspace = Some ''default''\<rparr>"

definition demo_state :: "nat state" where
  "demo_state =
     \<lparr>db_notes = [milk_note 1, walk_note, milk_note 3], counter_seq = 3,
      index_entries = [(1, 4), (2, 16), (3, 4)], index_modified = True,
      gemini_configured = False, qa_cache = Map.empty, trace = []\<rparr>"

definition untitled_note :: note_doc where
  "untitled_note = \<lparr>note_id = 7, title = None, content = Some ''C'',
     tags = Some [''reminder''], workspace = Some ''default''\<rparr>"


definition reminder_note :: note_doc where
  "reminder_note = \<lparr>note_id = 7, title = Some ''T'', content = Some ''C'',
     tags = Some [''reminder''], workspace = Some ''default''\<rparr>"


text \<open>
  Two variations of the environment: one in which the event file of note 7 cannot be
  written, one whose configuration holds the two rules above.
\<close>

definition failing_env :: "(nat, nat) env" where
  "failing_env = demo_env\<lparr>write_ok := (\<lambda>f. f \<noteq> EventFile 7)\<rparr>"


section \<open>Basic facts about the stores\<close>

lemmas repo_defs = add_note_def edit_note_def delete_note_def transcribe_audio_def
  insert_one_def update_one_def delete_one_def get_next_note_id_def add_note_to_index_def
  remove_note_from_index_def add_with_ids_def remove_ids_def emit_def apply_set_def

lemma apply_set_id [simp]: "note_id (apply_set u n) = note_id n"
  by (simp add: apply_set_def)

lemma update_first_ids [simp]: "map note_id (fst (update_first i u ns)) = map note_id ns"
  by (induction ns) auto





section \<open>The vector index's add operation\<close>

text \<open>
  C3, as stated, fails: \<^verbatim>\<open>add_note_to_index\<close> calls \<^verbatim>\<open>add_with_ids\<close> and nothing else,
  so adding the identifier 1 twice leaves two rows for it, not at most one.
\<close>

theorem add_note_to_index_twice_counterexample:
  "\<not> length (entries_for 1
        (snd (add_note_to_index demo_env 1 ''second''
           (snd (add_note_to_index demo_env 1 ''first'' init_state))))) \<le> 1"
  by (simp add: entries_for_def add_note_to_index_def add_with_ids_def emit_def
      demo_env_def init_state_def)

text \<open>
  C3, amended: when the embedding of the text is computed, \<^verbatim>\<open>add_note_to_index\<close> returns
  normally and appends exactly one row (the identifier with the embedding of the given
  text) after the rows already stored, which it keeps. The number of rows for the
  identifier grows by one: the index holds exactly one row for it after the call when it
  held none before.
\<close>

theorem add_note_to_index_appends:
  assumes "encode env txt = Some v"
  shows "fst (add_note_to_index env nid txt s) = Inr ()
       \<and> index_entries (snd (add_note_to_index env nid txt s)) = index_entries s @ [(nid, v)]
       \<and> length (entries_for nid (snd (add_note_to_index env nid txt s)))
           = Suc (length (entries_for nid s))"
  using assms
  by (simp add: add_note_to_index_def add_with_ids_def emit_def entries_for_def)

theorem add_note_to_index_appends_witness:
  "encode demo_env ''hello'' = Some 5
   \<and> fst (add_note_to_index demo_env 7 ''hello'' init_state) = Inr ()
   \<and> index_entries (snd (add_note_to_index demo_env 7 ''hello'' init_state)) = [(7, 5)]
   \<and> length (entries_for 7 (snd (add_note_to_index demo_env 7 ''hello'' init_state))) = 1"
proof -
  have h: "encode demo_env ''hello'' = Some 5"
    by (simp add: demo_env_def)
  have e: "index_entries (init_state :: nat state) = []"
    by (simp add: init_state_def)
  have n: "entries_for 7 (init_state :: nat state) = []"
    by (simp add: entries_for_def init_state_def)
  show ?thesis
    using add_note_to_index_appends [OF h, of 7 init_state] h e n by simp
qed

section \<open>Index and database across create, update and delete\<close>










lemma edit_note_notes:
  "db_notes (snd (edit_note env nid u s)) = fst (update_first nid u (db_notes s))"
  by (auto simp: edit_note_def update_one_def remove_note_from_index_def emit_def
      add_note_to_index_def Let_def split: option.splits)

















text \<open>
  The slip in the second sequence: the update stores the content the note already has,
  the database reports no modified record, and the entry removed before the write is not
  put back. The stored note, whose content is not empty, is left without an entry: a
  second way in which the invariant as the specification words it fails.
\<close>

lemma unchanged_content_update_drops_entry:
  "indexed_ids (run_ops demo_env slip_ops init_state) = []
   \<and> note_ids (run_ops demo_env slip_ops init_state) = [1]
   \<and> map content (db_notes (run_ops demo_env slip_ops init_state)) = [Some ''same'']
   \<and> \<not> index_matches_nonempty_content (run_ops demo_env slip_ops init_state)"
  by (simp add: slip_ops_def content_update_def indexed_ids_def note_ids_def repo_defs
      index_matches_nonempty_content_def has_content_def demo_env_def init_state_def)

section \<open>Creating a note from a recording\<close>

text \<open>
  C8: a create call with an audio reference (a non-empty path). If the recogniser fails,
  \<^verbatim>\<open>add_note\<close> raises its error and nothing else has happened: the notes, the counter and
  the index are as before, and the only call made is the transcription. If it succeeds
  and the call returns an identifier, the stored note carries the transcript as content
  (indexed under the new identifier). In both cases the content parameter is ignored:
  any two calls that differ only in it are equal.
\<close>

theorem add_note_audio:
  assumes "audio_path = Some p" and "p \<noteq> []"
  shows "(transcribe env p = None \<longrightarrow>
            fst (add_note env ttl cnt tgs wsp audio_path s) = Inl TranscriptionFailed
          \<and> db_notes (snd (add_note env ttl cnt tgs wsp audio_path s)) = db_notes s
          \<and> counter_seq (snd (add_note env ttl cnt tgs wsp audio_path s)) = counter_seq s
          \<and> index_entries (snd (add_note env ttl cnt tgs wsp audio_path s)) = index_entries s
          \<and> new_calls s (snd (add_note env ttl cnt tgs wsp audio_path s)) = [Transcribe p])
       \<and> (\<forall>t nid. transcribe env p = Some t
              \<longrightarrow> fst (add_note env ttl cnt tgs wsp audio_path s) = Inr nid
              \<longrightarrow> db_notes (snd (add_note env ttl cnt tgs wsp audio_path s))
                    = db_notes s @ [\<lparr>note_id = nid, title = Some ttl, content = Some t,
                         tags = Some (case tgs of None \<Rightarrow> [] | Some x \<Rightarrow> x),
                         workspace = Some (case wsp of None \<Rightarrow> ''default'' | Some w \<Rightarrow> w)\<rparr>]
                \<and> (\<exists>v. encode env t = Some v
                     \<and> index_entries (snd (add_note env ttl cnt tgs wsp audio_path s))
                         = index_entries s @ [(nid, v)]))
       \<and> add_note env ttl cnt tgs wsp audio_path s = add_note env ttl cnt' tgs wsp audio_path s"
  using assms
  by (auto simp: add_note_def transcribe_audio_def new_calls_def emit_def get_next_note_id_def
      insert_one_def add_note_to_index_def add_with_ids_def Let_def
      split: option.splits sum.splits prod.splits if_splits)

theorem add_note_audio_witness:
  "fst (add_note demo_env ''T'' ''typed'' None None (Some ''bad.wav'') init_state)
     = Inl TranscriptionFailed
   \<and> db_notes (snd (add_note demo_env ''T'' ''typed'' None None (Some ''bad.wav'') init_state)) = []
   \<and> counter_seq (snd (add_note demo_env ''T'' ''typed'' None None (Some ''bad.wav'') init_state)) = 0
   \<and> index_entries (snd (add_note demo_env ''T'' ''typed'' None None (Some ''bad.wav'') init_state)) = []
   \<and> fst (add_note demo_env ''T'' ''typed'' None None (Some ''memo.wav'') init_state) = Inr 1
   \<and> db_notes (snd (add_note demo_env ''T'' ''typed'' None None (Some ''memo.wav'') init_state))
       = [\<lparr>note_id = 1, title = Some ''T'', content = Some ''spoken words'', tags = Some [],
            workspace = Some ''default''\<rparr>]"
proof -
  have bad: "transcribe demo_env ''bad.wav'' = None"
    and good: "transcribe demo_env ''memo.wav'' = Some ''spoken words''"
    by (simp_all add: demo_env_def)
  have ret: "fst (add_note demo_env ''T'' ''typed'' None None (Some ''memo.wav'') init_state) = Inr 1"
    by (simp add: repo_defs demo_env_def init_state_def)
  have i: "db_notes (init_state :: nat state) = []" "counter_seq (init_state :: nat state) = 0"
    "index_entries (init_state :: nat state) = []"
    by (simp_all add: init_state_def)
  show ?thesis
    using add_note_audio [of "Some ''bad.wav''" "''bad.wav''" demo_env "''T''" "''typed''" None None
        init_state "''typed''"]
      add_note_audio [of "Some ''memo.wav''" "''memo.wav''" demo_env "''T''" "''typed''" None None
        init_state "''typed''"]
      bad good ret i
    by simp
qed

section \<open>Updating the content of a note\<close>

text \<open>
  C2: an update whose changes include content. The first two calls of \<^verbatim>\<open>edit_note\<close> are
  the removal of the identifier from the index and then the database write. When the
  write reports zero modified records, \<^verbatim>\<open>edit_note\<close> returns 0, makes no further call and
  leaves no entry for the identifier. When it reports a modified record and the new
  content is embedded, the entry is added after the write, with the embedding of the new
  content. An \<^verbatim>\<open>IndexAdd\<close> for the identifier occurs only when the write reported a
  modified record.
\<close>

theorem edit_note_content_reindex:
  assumes "u_content u = Some c"
  shows "take 2 (new_calls s (snd (edit_note env nid u s))) = [IndexRemove nid, DbUpdate nid]
       \<and> (fst (update_one nid u (remove_note_from_index nid s)) = 0 \<longrightarrow>
            fst (edit_note env nid u s) = Inr 0
          \<and> entries_for nid (snd (edit_note env nid u s)) = []
          \<and> new_calls s (snd (edit_note env nid u s)) = [IndexRemove nid, DbUpdate nid])
       \<and> (\<forall>v. fst (update_one nid u (remove_note_from_index nid s)) \<noteq> 0 \<longrightarrow>
              encode env c = Some v \<longrightarrow>
                fst (edit_note env nid u s)
                  = Inr (fst (update_one nid u (remove_note_from_index nid s)))
              \<and> index_entries (snd (edit_note env nid u s))
                  = remove_ids nid (index_entries s) @ [(nid, v)]
              \<and> new_calls s (snd (edit_note env nid u s))
                  = [IndexRemove nid, DbUpdate nid, Encode c, IndexAdd nid])
       \<and> (IndexAdd nid \<in> set (new_calls s (snd (edit_note env nid u s))) \<longrightarrow>
            fst (update_one nid u (remove_note_from_index nid s)) \<noteq> 0)"
  using assms
  by (auto simp: edit_note_def update_one_def remove_note_from_index_def emit_def
      add_note_to_index_def add_with_ids_def remove_ids_def new_calls_def entries_for_def
      Let_def split: option.splits)

theorem edit_note_content_reindex_witness:
  "u_content (content_update ''tea'') = Some ''tea''
   \<and> fst (edit_note demo_env 1 (content_update ''tea'') demo_state) = Inr 1
   \<and> index_entries (snd (edit_note demo_env 1 (content_update ''tea'') demo_state))
       = [(2, 16), (3, 4), (1, 3)]
   \<and> new_calls demo_state (snd (edit_note demo_env 1 (content_update ''tea'') demo_state))
       = [IndexRemove 1, DbUpdate 1, Encode ''tea'', IndexAdd 1]
   \<and> fst (edit_note demo_env 9 (content_update ''tea'') demo_state) = Inr 0
   \<and> entries_for 9 (snd (edit_note demo_env 9 (content_update ''tea'') demo_state)) = []
   \<and> new_calls demo_state (snd (edit_note demo_env 9 (content_update ''tea'') demo_state))
       = [IndexRemove 9, DbUpdate 9]"
proof -
  have h: "u_content (content_update ''tea'') = Some ''tea''"
    by (simp add: content_update_def)
  have m1: "fst (update_one 1 (content_update ''tea'') (remove_note_from_index 1 demo_state)) = 1"
    and m9: "fst (update_one 9 (content_update ''tea'') (remove_note_from_index 9 demo_state)) = 0"
    by (simp_all add: update_one_def remove_note_from_index_def emit_def apply_set_def
        content_update_def demo_state_def milk_note_def walk_note_def)
  have e: "encode demo_env ''tea'' = Some 3"
    by (simp add: demo_env_def)
  have r: "remove_ids 1 (index_entries demo_state) = [(2, 16), (3, 4)]"
    by (simp add: remove_ids_def demo_state_def)
  show ?thesis
    using edit_note_content_reindex [OF h, of demo_state demo_env 1]
      edit_note_content_reindex [OF h, of demo_state demo_env 9] h m1 m9 e r
    by simp
qed

section \<open>Querying the vector index\<close>

lemma filter_sentinel_labels:
  "filter (\<lambda>i. i \<noteq> - 1) (index_search dist rows q k)
     = map fst (filter (\<lambda>r. fst r \<noteq> - 1) (take k (sort_key (\<lambda>r. dist q (snd r)) rows)))"
  by (simp add: index_search_def Let_def filter_map comp_def take_map)

lemma ranked_rows_sorted:
  "sorted (map f (filter P (take k (sort_key f rows))))"
proof -
  have "sorted (map f (take k (sort_key f rows)))"
    by (simp add: take_map [symmetric] sorted_wrt_take del: take_map)
  then show ?thesis
    by (rule sorted_filter)
qed

lemma ranked_rows_stable:
  "subseq (filter (\<lambda>r. f r = d) (filter P (take k (sort_key f rows))))
          (filter (\<lambda>r. f r = d) rows)"
proof -
  have "prefix (filter (\<lambda>r. f r = d) (take k (sort_key f rows)))
               (filter (\<lambda>r. f r = d) (sort_key f rows))"
    by (rule filter_mono_prefix) (rule take_is_prefix)
  then have "subseq (filter (\<lambda>r. f r = d) (take k (sort_key f rows)))
                    (filter (\<lambda>r. f r = d) rows)"
    by (auto simp: sort_key_stable)
  moreover have "filter (\<lambda>r. f r = d) (filter P (take k (sort_key f rows)))
      = filter P (filter (\<lambda>r. f r = d) (take k (sort_key f rows)))"
    by (simp add: conj_commute)
  ultimately show ?thesis
    using subseq_order.trans [OF subseq_filter_left] by metis
qed

text \<open>
  C7: when the embedding of the query is computed, \<^verbatim>\<open>search_similar_notes\<close> returns a
  list \<open>ids\<close> of at most \<open>k\<close> identifiers without the sentinel \<open>-1\<close>. They are the
  identifiers of stored rows \<open>es\<close> whose distances to the query ascend, and rows at one
  distance keep their insertion order. When no stored identifier is \<open>-1\<close>, the list is
  the first \<open>k\<close> rows of the index stably sorted by distance, hence shorter than \<open>k\<close> when
  fewer rows are stored, and empty on an empty index.
\<close>

theorem search_similar_notes_ranked:
  assumes "encode env query = Some q"
  shows "\<exists>ids es. fst (search_similar_notes env query k s) = Inr ids
      \<and> length ids \<le> k
      \<and> - 1 \<notin> set ids
      \<and> ids = map fst es
      \<and> set es \<subseteq> set (index_entries s)
      \<and> sorted (map (\<lambda>r. distance env q (snd r)) es)
      \<and> (\<forall>d. subseq (filter (\<lambda>r. distance env q (snd r) = d) es)
                     (filter (\<lambda>r. distance env q (snd r) = d) (index_entries s)))
      \<and> (- 1 \<notin> set (indexed_ids s) \<longrightarrow>
            ids = map fst (take k (sort_key (\<lambda>r. distance env q (snd r)) (index_entries s))))
      \<and> (index_entries s = [] \<longrightarrow> ids = [])"
proof -
  let ?f = "\<lambda>r. distance env q (snd r)"
  let ?es = "filter (\<lambda>r. fst r \<noteq> - 1) (take k (sort_key ?f (index_entries s)))"
  have r: "fst (search_similar_notes env query k s) = Inr (map fst ?es)"
    using assms
    by (simp add: search_similar_notes_def emit_def Let_def filter_sentinel_labels)
  have l: "length (map fst ?es) \<le> k"
    using length_filter_le [of "\<lambda>r. fst r \<noteq> - 1" "take k (sort_key ?f (index_entries s))"]
    by simp
  have n: "- 1 \<notin> set (map fst ?es)"
    by auto
  have sub: "set ?es \<subseteq> set (index_entries s)"
    using set_take_subset [of k "sort_key ?f (index_entries s)"] by auto
  have all: "- 1 \<notin> set (indexed_ids s) \<Longrightarrow> ?es = take k (sort_key ?f (index_entries s))"
  proof -
    assume a: "- 1 \<notin> set (indexed_ids s)"
    have "\<forall>r \<in> set (take k (sort_key ?f (index_entries s))). fst r \<noteq> - 1"
      using a by (force simp: indexed_ids_def dest: in_set_takeD)
    then show ?thesis
      by (simp add: filter_id_conv)
  qed
  show ?thesis
    using r l n sub ranked_rows_sorted [of ?f _ k "index_entries s"]
      ranked_rows_stable [of ?f _ _ k "index_entries s"] all
    by (intro exI [of _ "map fst ?es"] exI [of _ ?es]) auto
qed

theorem search_similar_notes_ranked_witness:
  "encode demo_env ''milk'' = Some 4
   \<and> fst (search_similar_notes demo_env ''milk'' 2 demo_state) = Inr [1, 3]
   \<and> fst (search_similar_notes demo_env ''milk'' 5 demo_state) = Inr [1, 3, 2]"
proof -
  have h: "encode demo_env ''milk'' = Some 4"
    by (simp add: demo_env_def)
  have nosent: "- 1 \<notin> set (indexed_ids demo_state)"
    by (simp add: indexed_ids_def demo_state_def)
  have s2: "map fst (take 2 (sort_key (\<lambda>r. distance demo_env 4 (snd r))
              (index_entries demo_state))) = [1, 3]"
    and s5: "map fst (take 5 (sort_key (\<lambda>r. distance demo_env 4 (snd r))
              (index_entries demo_state))) = [1, 3, 2]"
    by (simp_all add: demo_env_def demo_state_def)
  have a: "fst (search_similar_notes demo_env ''milk'' 2 demo_state) = Inr [1, 3]"
    using search_similar_notes_ranked [OF h, of 2 demo_state] nosent s2 by auto
  have b: "fst (search_similar_notes demo_env ''milk'' 5 demo_state) = Inr [1, 3, 2]"
    using search_similar_notes_ranked [OF h, of 5 demo_state] nosent s5 by auto
  show ?thesis
    using h a b by simp
qed

section \<open>The combined list of relevant notes\<close>

lemma search_similar_notes_frame:
  "db_notes (snd (search_similar_notes env q k s)) = db_notes s"
  "qa_cache (snd (search_similar_notes env q k s)) = qa_cache s"
  "index_entries (snd (search_similar_notes env q k s)) = index_entries s"
  by (simp_all add: search_similar_notes_def emit_def Let_def split: option.splits)

lemma search_similar_notes_calls:
  "fst (search_similar_notes env question k s) = Inr ids \<Longrightarrow>
     snd (search_similar_notes env question k s)
       = s\<lparr>trace := trace s @ [Encode question, IndexSearch k]\<rparr>"
  by (auto simp: search_similar_notes_def emit_def Let_def split: option.splits)

lemma relevant_notes_result:
  "fst (relevant_notes env question k s)
     = (case fst (search_similar_notes env question k s) of
          Inl e \<Rightarrow> Inl e
        | Inr ids \<Rightarrow>
            Inr (ids, filter (text_match env question) (db_notes s),
                 filter (\<lambda>n. note_id n \<in> set ids) (db_notes s)
                 @ filter (\<lambda>n. note_id n \<notin> set ids)
                     (filter (text_match env question) (db_notes s))))"
proof (cases "search_similar_notes env question k s")
  case (Pair r s1)
  then have "db_notes s1 = db_notes s"
    using search_similar_notes_frame(1) [of env question k s] by simp
  with Pair show ?thesis
    by (cases r) (simp_all add: relevant_notes_def full_text_search_def find_in_def emit_def)
qed

lemma relevant_notes_calls:
  assumes "fst (search_similar_notes env question k s) = Inr []"
  shows "snd (relevant_notes env question k s)
       = s\<lparr>trace := trace s @ [Encode question, IndexSearch k, DbTextSearch question]\<rparr>"
proof (cases "search_similar_notes env question k s")
  case (Pair r s1)
  then have "r = Inr []" and "s1 = s\<lparr>trace := trace s @ [Encode question, IndexSearch k]\<rparr>"
    using assms search_similar_notes_calls [OF assms] by simp_all
  with Pair show ?thesis
    by (simp add: relevant_notes_def full_text_search_def emit_def)
qed

text \<open>
  C5: in a database whose notes have distinct identifiers, whenever the first half of
  \<^verbatim>\<open>ask_question\<close> returns, its list \<^verbatim>\<open>relevant_notes\<close> is the notes fetched for the
  identifiers of the semantic search (all stored notes whose identifier is among them, in
  storage order), followed by exactly the full-text matches whose identifier is not among
  those identifiers; no two notes of the list share an identifier. Nothing compares
  contents.
\<close>

theorem relevant_notes_combined:
  assumes "distinct (note_ids s)"
    and "fst (relevant_notes env question k s) = Inr (ids, ft, rel)"
  shows "fst (search_similar_notes env question k s) = Inr ids
       \<and> ft = fst (full_text_search env question s)
       \<and> rel = filter (\<lambda>n. note_id n \<in> set ids) (db_notes s)
               @ filter (\<lambda>n. note_id n \<notin> set ids) ft
       \<and> distinct (map note_id rel)"
proof -
  from assms(2) have a: "fst (search_similar_notes env question k s) = Inr ids"
    and b: "ft = filter (text_match env question) (db_notes s)"
    and c: "rel = filter (\<lambda>n. note_id n \<in> set ids) (db_notes s)
               @ filter (\<lambda>n. note_id n \<notin> set ids) ft"
    by (auto simp: relevant_notes_result split: sum.splits)
  have d: "distinct (map note_id (db_notes s))"
    using assms(1) by (simp add: note_ids_def)
  have "distinct (map note_id rel)"
    unfolding c b using d by (auto simp: distinct_map_filter)
  then show ?thesis
    using a b c by (simp add: full_text_search_def)
qed

theorem relevant_notes_combined_witness:
  "distinct (note_ids demo_state)
   \<and> fst (relevant_notes demo_env ''milk'' 1 demo_state)
       = Inr ([1], [milk_note 1, milk_note 3], [milk_note 1, milk_note 3])
   \<and> fst (full_text_search demo_env ''milk'' demo_state) = [milk_note 1, milk_note 3]
   \<and> distinct (map note_id [milk_note 1, milk_note 3])
   \<and> content (milk_note 1) = content (milk_note 3)"
proof -
  have d: "distinct (note_ids demo_state)"
    by (simp add: note_ids_def demo_state_def milk_note_def walk_note_def)
  have s: "fst (search_similar_notes demo_env ''milk'' 1 demo_state) = Inr [1]"
    by (simp add: search_similar_notes_def index_search_def emit_def demo_env_def
        demo_state_def)
  have r: "fst (relevant_notes demo_env ''milk'' 1 demo_state)
             = Inr ([1], [milk_note 1, milk_note 3], [milk_note 1, milk_note 3])"
    unfolding relevant_notes_result s
    by (simp add: demo_env_def demo_state_def milk_note_def walk_note_def)
  note t = relevant_notes_combined [OF d r]
  have ft: "fst (full_text_search demo_env ''milk'' demo_state) = [milk_note 1, milk_note 3]"
    by (rule t [THEN conjunct2, THEN conjunct1, symmetric])
  have dd: "distinct (map note_id [milk_note 1, milk_note 3])"
    by (rule t [THEN conjunct2, THEN conjunct2, THEN conjunct2])
  have cc: "content (milk_note 1) = content (milk_note 3)"
    by (simp add: milk_note_def)
  show ?thesis
    by (intro conjI d r ft dd cc)
qed

section \<open>Answering without notes\<close>

text \<open>
  C6: a question that is not in the cache, for which the vector search returns no
  identifier and the full-text search no note. \<^verbatim>\<open>ask_question\<close> returns the fixed
  no-match text; the calls it makes are the embedding of the question, the index search
  and the text query, and none of them is a call of the generative model.
\<close>

theorem ask_question_no_match:
  assumes "qa_cache s question = None"
    and "fst (search_similar_notes env question k s) = Inr []"
    and "fst (full_text_search env question s) = []"
  shows "fst (ask_question env question k s) = Inr no_match_response
       \<and> new_calls s (snd (ask_question env question k s))
           = [Encode question, IndexSearch k, DbTextSearch question]
       \<and> (\<forall>p. Generate p \<notin> set (new_calls s (snd (ask_question env question k s))))"
proof -
  have r: "fst (relevant_notes env question k s) = Inr ([], [], [])"
    using assms(2,3) by (simp add: relevant_notes_result full_text_search_def)
  have "relevant_notes env question k s
          = (Inr ([], [], []),
             s\<lparr>trace := trace s @ [Encode question, IndexSearch k, DbTextSearch question]\<rparr>)"
    using r relevant_notes_calls [OF assms(2)] by (simp add: prod_eq_iff)
  then show ?thesis
    using assms(1) by (simp add: ask_question_def new_calls_def)
qed

theorem ask_question_no_match_witness:
  "qa_cache (init_state :: nat state) ''unrelated query'' = None
   \<and> fst (search_similar_notes demo_env ''unrelated query'' 5 init_state) = Inr []
   \<and> fst (full_text_search demo_env ''unrelated query'' init_state) = []
   \<and> fst (ask_question demo_env ''unrelated query'' 5 init_state) = Inr no_match_response
   \<and> new_calls init_state (snd (ask_question demo_env ''unrelated query'' 5 init_state))
       = [Encode ''unrelated query'', IndexSearch 5, DbTextSearch ''unrelated query'']"
proof -
  have c: "qa_cache (init_state :: nat state) ''unrelated query'' = None"
    by (simp add: init_state_def)
  have s: "fst (search_similar_notes demo_env ''unrelated query'' 5 init_state) = Inr []"
    by (simp add: search_similar_notes_def index_search_def emit_def demo_env_def
        init_state_def)
  have f: "fst (full_text_search demo_env ''unrelated query'' init_state) = []"
    by (simp add: full_text_search_def init_state_def)
  show ?thesis
    using ask_question_no_match [OF c s f] c s f by simp
qed

section \<open>The answer cache\<close>

lemma qa_cache_emit [simp]: "qa_cache (emit c s) = qa_cache s"
  by (simp add: emit_def)

lemma qa_cache_repo:
  "qa_cache (snd (add_note env ttl cnt tgs wsp ap s)) = qa_cache s"
  "qa_cache (snd (edit_note env nid u s)) = qa_cache s"
  "qa_cache (snd (delete_note nid s)) = qa_cache s"
  by (auto simp: add_note_def edit_note_def delete_note_def transcribe_audio_def
      insert_one_def get_next_note_id_def update_one_def delete_one_def
      add_note_to_index_def remove_note_from_index_def Let_def
      split: option.splits sum.splits prod.splits if_splits)

lemma qa_cache_generate:
  "qa_cache (snd (generate_response env p s)) = qa_cache s"
  by (simp add: generate_response_def ensure_gemini_def split: option.splits)

lemma qa_cache_handlers:
  "qa_cache (snd (add_to_calendar env n s)) = qa_cache s"
  "qa_cache (snd (share_to_whatsapp env n s)) = qa_cache s"
  "qa_cache (snd (rephrase_note env n s)) = qa_cache s"
  "qa_cache (snd (suggest_tags env n s)) = qa_cache s"
  by (auto simp: add_to_calendar_def add_to_calendar_try_def share_to_whatsapp_def
      share_to_whatsapp_try_def rephrase_note_def rephrase_note_try_def suggest_tags_def
      suggest_tags_try_def write_file_def generate_response_def ensure_gemini_def
      update_one_def Let_def
      split: option.splits sum.splits prod.splits if_splits)

lemma qa_cache_perform: "qa_cache (snd (perform_action env a n s)) = qa_cache s"
  by (simp add: perform_action_def action_functions_def qa_cache_handlers)

lemma run_rules_step:
  "run_rules env (r # rs) n s
     = (if fires r n
        then (case perform_action env (the (rule_action r)) n s of
                (Inl e, s1) \<Rightarrow> (Inl e, s1)
              | (Inr u, s1) \<Rightarrow> run_rules env rs n s1)
        else run_rules env rs n s)"
  by (simp add: fires_def split: option.splits)

lemma qa_cache_rules: "qa_cache (snd (run_rules env rs n s)) = qa_cache s"
proof (induction rs arbitrary: s)
  case Nil
  show ?case by simp
next
  case (Cons r rs)
  show ?case
  proof (cases "fires r n")
    case True
    obtain res s1 where p: "perform_action env (the (rule_action r)) n s = (res, s1)"
      by (cases "perform_action env (the (rule_action r)) n s")
    then have "qa_cache s1 = qa_cache s"
      using qa_cache_perform [of env "the (rule_action r)" n s] by simp
    with p True Cons.IH [of s1] show ?thesis
      by (cases res) (simp_all add: run_rules_step del: run_rules.simps)
  next
    case False
    with Cons.IH [of s] show ?thesis
      by (simp add: run_rules_step del: run_rules.simps)
  qed
qed

lemma qa_cache_agents: "qa_cache (snd (run_agents env n s)) = qa_cache s"
  by (simp add: run_agents_def qa_cache_rules split: option.splits)

lemma qa_cache_relevant: "qa_cache (snd (relevant_notes env q k s)) = qa_cache s"
proof (cases "search_similar_notes env q k s")
  case (Pair r s1)
  then have "qa_cache s1 = qa_cache s"
    using search_similar_notes_frame(2) [of env q k s] by simp
  with Pair show ?thesis
    by (cases r) (simp_all add: relevant_notes_def full_text_search_def find_in_def)
qed

lemma ask_question_cached:
  "qa_cache s q = Some a \<Longrightarrow> ask_question env q k s = (Inr a, s)"
  by (simp add: ask_question_def)

lemma qa_cache_ask_kept:
  assumes "qa_cache s q = Some a"
  shows "qa_cache (snd (ask_question env q' k s)) q = Some a"
proof (cases "qa_cache s q'")
  case (Some b)
  then show ?thesis
    using assms by (simp add: ask_question_def)
next
  case None
  then have ne: "q' \<noteq> q"
    using assms by auto
  obtain r s1 where rel: "relevant_notes env q' k s = (r, s1)"
    by (cases "relevant_notes env q' k s")
  then have c1: "qa_cache s1 = qa_cache s"
    using qa_cache_relevant [of env q' k s] by simp
  show ?thesis
  proof (cases r)
    case (Inl e)
    with None rel c1 assms show ?thesis
      by (simp add: ask_question_def)
  next
    case (Inr t)
    obtain ids ft rl where t: "t = (ids, ft, rl)"
      by (cases t)
    obtain g s2 where gen: "generate_response env (make_prompt env (take k rl) q') s1 = (g, s2)"
      by (cases "generate_response env (make_prompt env (take k rl) q') s1")
    then have c2: "qa_cache s2 = qa_cache s1"
      using qa_cache_generate [of env "make_prompt env (take k rl) q'" s1] by simp
    show ?thesis
      using None rel Inr t gen c1 c2 assms ne
      by (cases g) (simp_all add: ask_question_def)
  qed
qed

lemma qa_cache_exec_kept:
  "qa_cache s q = Some a \<Longrightarrow> qa_cache (exec env c s) q = Some a"
proof (cases c)
  case (Repo x)
  assume "qa_cache s q = Some a"
  with Repo show ?thesis
    by (cases x) (simp_all add: qa_cache_repo)
next
  case (Ask q' k)
  assume "qa_cache s q = Some a"
  with Ask show ?thesis
    by (simp add: qa_cache_ask_kept)
next
  case (Agents n)
  assume "qa_cache s q = Some a"
  with Agents show ?thesis
    by (simp add: qa_cache_agents)
qed

lemma qa_cache_exec_all_kept:
  "qa_cache s q = Some a \<Longrightarrow> qa_cache (exec_all cs s) q = Some a"
  by (induction cs arbitrary: s) (simp_all add: qa_cache_exec_kept)

text \<open>
  C10: whenever \<^verbatim>\<open>ask_question\<close> returns an answer (the no-match text and the sentinel of
  a failed model call are answers like any other), the state it leaves has that answer
  in the cache under the question. After any further repository operations, questions
  and agent runs, with collaborators behaving in any way, a call with the same question
  returns the same text and leaves the state as it found it: it makes no call at all, so
  neither the searches nor the model are tried again.
\<close>

theorem ask_question_answer_is_permanent:
  fixes env :: "('e, 'd::linorder) env"
  assumes "ask_question env question k s = (Inr answer, s1)"
  shows "qa_cache s1 question = Some answer
       \<and> (\<forall>(cs :: (('e, 'd) env \<times> command) list) (env2 :: ('e, 'd) env) k2.
             ask_question env2 question k2 (exec_all cs s1) = (Inr answer, exec_all cs s1))"
proof -
  have c: "qa_cache s1 question = Some answer"
    using assms
    by (auto simp: ask_question_def split: option.splits prod.splits sum.splits if_splits)
  show ?thesis
    using c by (simp add: qa_cache_exec_all_kept [OF c] ask_question_cached)
qed

text \<open>
  The example: the model is down when the question is first asked over three stored
  notes, so the sentinel is the answer; later a note is deleted and the model is back,
  and the same question still gets the sentinel.
\<close>

theorem ask_question_answer_is_permanent_witness:
  "fst (ask_question demo_env ''milk'' 5 demo_state) = Inr ai_response_failed
   \<and> qa_cache (snd (ask_question demo_env ''milk'' 5 demo_state)) ''milk''
       = Some ai_response_failed
   \<and> ask_question (demo_env\<lparr>generate := (\<lambda>p. Some ''two notes mention milk'')\<rparr>) ''milk'' 3
        (exec_all [(demo_env, Repo (Delete 1))] (snd (ask_question demo_env ''milk'' 5 demo_state)))
       = (Inr ai_response_failed,
          exec_all [(demo_env, Repo (Delete 1))] (snd (ask_question demo_env ''milk'' 5 demo_state)))"
proof -
  have c: "qa_cache demo_state ''milk'' = None"
    by (simp add: demo_state_def)
  have s: "fst (search_similar_notes demo_env ''milk'' 5 demo_state) = Inr [1, 3, 2]"
    by (simp add: search_similar_notes_def index_search_def emit_def demo_env_def
        demo_state_def)
  have "fst (relevant_notes demo_env ''milk'' 5 demo_state)
          = Inr ([1, 3, 2], [milk_note 1, milk_note 3], [milk_note 1, walk_note, milk_note 3])"
    unfolding relevant_notes_result s
    by (simp add: demo_env_def demo_state_def milk_note_def walk_note_def)
  then obtain s1 where rel: "relevant_notes demo_env ''milk'' 5 demo_state
      = (Inr ([1, 3, 2], [milk_note 1, milk_note 3], [milk_note 1, walk_note, milk_note 3]), s1)"
    by (cases "relevant_notes demo_env ''milk'' 5 demo_state") auto
  have gen: "fst (generate_response demo_env p t) = Inr ai_response_failed"
    for p and t :: "nat state"
    by (simp add: generate_response_def ensure_gemini_def demo_env_def)
  have f: "fst (ask_question demo_env ''milk'' 5 demo_state) = Inr ai_response_failed"
    using gen [of "make_prompt demo_env [milk_note 1, walk_note, milk_note 3] ''milk''" s1]
    by (auto simp: ask_question_def c rel split: prod.splits sum.splits)
  have a: "ask_question demo_env ''milk'' 5 demo_state
             = (Inr ai_response_failed, snd (ask_question demo_env ''milk'' 5 demo_state))"
    using f by (simp add: prod_eq_iff)
  note t = ask_question_answer_is_permanent [OF a]
  have p1: "qa_cache (snd (ask_question demo_env ''milk'' 5 demo_state)) ''milk''
              = Some ai_response_failed"
    by (rule t [THEN conjunct1])
  have p2: "ask_question (demo_env\<lparr>generate := (\<lambda>p. Some ''two notes mention milk'')\<rparr>)
        ''milk'' 3
        (exec_all [(demo_env, Repo (Delete 1))] (snd (ask_question demo_env ''milk'' 5 demo_state)))
       = (Inr ai_response_failed,
          exec_all [(demo_env, Repo (Delete 1))] (snd (ask_question demo_env ''milk'' 5 demo_state)))"
    by (rule t [THEN conjunct2, rule_format])
  show ?thesis
    by (intro conjI f p1 p2)
qed

section \<open>What an agent run prints\<close>

lemma logs_iff:
  "logs s as s' \<longleftrightarrow> (\<exists>evs. trace s' = trace s @ evs \<and> List.map_filter outcome_action evs = as)"
proof
  assume l: "logs s as s'"
  have "trace s' = take (length (trace s)) (trace s') @ drop (length (trace s)) (trace s')"
    by simp
  with l have "trace s' = trace s @ new_calls s s'"
    by (simp add: logs_def new_calls_def)
  with l show "\<exists>evs. trace s' = trace s @ evs \<and> List.map_filter outcome_action evs = as"
    by (auto simp: logs_def)
next
  assume "\<exists>evs. trace s' = trace s @ evs \<and> List.map_filter outcome_action evs = as"
  then show "logs s as s'"
    by (auto simp: logs_def new_calls_def)
qed

lemma logs_refl: "logs s [] s"
  by (simp add: logs_iff)

lemma logs_trans: "logs s as s1 \<Longrightarrow> logs s1 bs s2 \<Longrightarrow> logs s (as @ bs) s2"
  by (auto simp: logs_iff List.map_filter_def)

lemma logs_emit:
  "logs s as s1 \<Longrightarrow>
     logs s (as @ (case outcome_action c of None \<Rightarrow> [] | Some a \<Rightarrow> [a])) (emit c s1)"
  by (auto simp: logs_iff emit_def List.map_filter_def split: option.splits)

lemma logs_same_trace: "logs s as s1 \<Longrightarrow> trace s2 = trace s1 \<Longrightarrow> logs s as s2"
  by (simp add: logs_iff)

lemma logs_new_calls:
  "logs s as s' \<Longrightarrow> List.map_filter outcome_action (new_calls s s') = as"
  by (auto simp: logs_iff new_calls_def)

lemma outcome_action_simps [simp]:
  "outcome_action (FileWrite f) = None"
  "outcome_action (Generate p) = None"
  "outcome_action (DbUpdate i) = None"
  "outcome_action (Print (GeminiError p)) = None"
  "outcome_action (Print AgentsConfigNotFound) = None"
  "outcome_action (Print (UnknownAction a)) = Some a"
  "outcome_action (Print (CalendarAdded t)) = Some ''calendar_event''"
  "outcome_action (Print (CalendarFailed e)) = Some ''calendar_event''"
  "outcome_action (Print (WhatsappShared t)) = Some ''share_to_whatsapp''"
  "outcome_action (Print (WhatsappFailed e)) = Some ''share_to_whatsapp''"
  "outcome_action (Print (Rephrased i)) = Some ''rephrase_with_gemini''"
  "outcome_action (Print (RephraseFailed i e)) = Some ''rephrase_with_gemini''"
  "outcome_action (Print (TagsSuggested i ts)) = Some ''suggest_tags''"
  "outcome_action (Print (SuggestTagsFailed i e)) = Some ''suggest_tags''"
  by (simp_all add: outcome_action_def)

lemma logs_write_file: "logs s as s1 \<Longrightarrow> logs s as (snd (write_file env f s1))"
  using logs_emit [of s as s1 "FileWrite f"] by (simp add: write_file_def)

lemma logs_generate: "logs s as s1 \<Longrightarrow> logs s as (snd (generate_response env p s1))"
proof -
  assume a: "logs s as s1"
  have b: "logs s as (s1\<lparr>gemini_configured := True\<rparr>)"
    by (rule logs_same_trace [OF a]) simp
  have c: "logs s as (emit (Generate p) t)" if "logs s as t" for t
    using logs_emit [OF that, of "Generate p"] by simp
  have d: "logs s as (emit (Print (GeminiError p)) t)" if "logs s as t" for t
    using logs_emit [OF that, of "Print (GeminiError p)"] by simp
  show ?thesis
    using a b c d
    by (simp add: generate_response_def ensure_gemini_def split: option.splits)
qed

lemma logs_update_one: "logs s as s1 \<Longrightarrow> logs s as (snd (update_one i u s1))"
proof -
  assume a: "logs s as s1"
  have "logs s as (s1\<lparr>db_notes := fst (update_first i u (db_notes s1))\<rparr>)"
    by (rule logs_same_trace [OF a]) simp
  from logs_emit [OF this, of "DbUpdate i"] show ?thesis
    by (simp add: update_one_def)
qed

lemma add_to_calendar_logs:
  assumes "stored_fields n"
  shows "fst (add_to_calendar env n s) = Inr ()
       \<and> logs s [''calendar_event''] (snd (add_to_calendar env n s))"
proof -
  from assms obtain ttl cnt where tc: "title n = Some ttl" "content n = Some cnt"
    by (auto simp: stored_fields_def)
  have w1: "logs s [] (snd (write_file env (EventFile (note_id n)) s))"
    by (rule logs_write_file [OF logs_refl])
  have w2: "logs s [] (snd (write_file env RemindersFile (snd (write_file env (EventFile (note_id n)) s))))"
    by (rule logs_write_file [OF w1])
  have e: "logs s [''calendar_event''] (emit (Print (CalendarFailed x)) t)"
    "logs s [''calendar_event''] (emit (Print (CalendarAdded ttl)) t)" if "logs s [] t" for t x
    using logs_emit [OF that, of "Print (CalendarFailed x)"]
      logs_emit [OF that, of "Print (CalendarAdded ttl)"] by simp_all
  show ?thesis
    using tc e [OF logs_refl] e [OF w1] e [OF w2]
    by (simp add: add_to_calendar_def add_to_calendar_try_def split: prod.splits sum.splits)
      (auto simp: write_file_def split: if_splits)
qed

lemma share_to_whatsapp_logs:
  assumes "stored_fields n"
  shows "fst (share_to_whatsapp env n s) = Inr ()
       \<and> logs s [''share_to_whatsapp''] (snd (share_to_whatsapp env n s))"
proof -
  from assms obtain ttl cnt where tc: "title n = Some ttl" "content n = Some cnt"
    by (auto simp: stored_fields_def)
  have w1: "logs s [] (snd (write_file env WhatsappLog s))"
    by (rule logs_write_file [OF logs_refl])
  have w2: "logs s [] (snd (write_file env (ShareFile (note_id n)) (snd (write_file env WhatsappLog s))))"
    by (rule logs_write_file [OF w1])
  have e: "logs s [''share_to_whatsapp''] (emit (Print (WhatsappFailed x)) t)"
    "logs s [''share_to_whatsapp''] (emit (Print (WhatsappShared ttl)) t)" if "logs s [] t" for t x
    using logs_emit [OF that, of "Print (WhatsappFailed x)"]
      logs_emit [OF that, of "Print (WhatsappShared ttl)"] by simp_all
  show ?thesis
    using tc e [OF logs_refl] e [OF w1] e [OF w2]
    by (simp add: share_to_whatsapp_def share_to_whatsapp_try_def split: prod.splits sum.splits)
      (auto simp: write_file_def split: if_splits)
qed

lemma rephrase_note_try_logs:
  "case rephrase_note_try env n s of
     (Inl e, s1) \<Rightarrow> logs s [] s1
   | (Inr u, s1) \<Rightarrow> logs s [''rephrase_with_gemini''] s1"
proof (cases "content n")
  case None
  then show ?thesis
    by (simp add: rephrase_note_try_def logs_refl)
next
  case (Some cnt)
  obtain g s1 where g: "generate_response env (''Rephrase the following note: '' @ cnt) s = (g, s1)"
    by (cases "generate_response env (''Rephrase the following note: '' @ cnt) s")
  have "logs s [] (snd (generate_response env (''Rephrase the following note: '' @ cnt) s))"
    by (rule logs_generate [OF logs_refl])
  with g have l1: "logs s [] s1"
    by simp
  show ?thesis
  proof (cases g)
    case (Inl e)
    with Some g l1 show ?thesis
      by (simp add: rephrase_note_try_def)
  next
    case (Inr new_content)
    let ?u = "\<lparr>u_title = None, u_content = Some new_content, u_tags = None, u_workspace = None\<rparr>"
    have "logs s [] (snd (update_one (note_id n) ?u s1))"
      by (rule logs_update_one [OF l1])
    from logs_emit [OF this, of "Print (Rephrased (note_id n))"]
    show ?thesis
      using Some g Inr by (auto simp: rephrase_note_try_def split: prod.splits)
  qed
qed

lemma rephrase_note_logs:
  "fst (rephrase_note env n s) = Inr ()
   \<and> logs s [''rephrase_with_gemini''] (snd (rephrase_note env n s))"
proof (cases "rephrase_note_try env n s")
  case (Pair r s1)
  show ?thesis
  proof (cases r)
    case (Inl e)
    with Pair rephrase_note_try_logs [where env = env and n = n and s = s] have "logs s [] s1"
      by simp
    from logs_emit [OF this, of "Print (RephraseFailed (note_id n) e)"] Pair Inl
    show ?thesis
      by (simp add: rephrase_note_def)
  next
    case (Inr u)
    with Pair rephrase_note_try_logs [where env = env and n = n and s = s] show ?thesis
      by (simp add: rephrase_note_def)
  qed
qed

lemma suggest_tags_try_logs:
  "case suggest_tags_try env n s of
     (Inl e, s1) \<Rightarrow> logs s [] s1
   | (Inr u, s1) \<Rightarrow> logs s [''suggest_tags''] s1"
proof (cases "content n")
  case None
  then show ?thesis
    by (simp add: suggest_tags_try_def logs_refl)
next
  case (Some cnt)
  obtain g s1 where g: "generate_response env (''Suggest 1 to 3 tags for this note: '' @ cnt) s = (g, s1)"
    by (cases "generate_response env (''Suggest 1 to 3 tags for this note: '' @ cnt) s")
  have "logs s [] (snd (generate_response env (''Suggest 1 to 3 tags for this note: '' @ cnt) s))"
    by (rule logs_generate [OF logs_refl])
  with g have l1: "logs s [] s1"
    by simp
  show ?thesis
  proof (cases g)
    case (Inl e)
    with Some g l1 show ?thesis
      by (simp add: suggest_tags_try_def)
  next
    case (Inr response)
    define sug where "sug = map (str_strip env) (split_on CHR '','' response)"
    let ?u = "\<lparr>u_title = None, u_content = None, u_tags = Some (remdups (note_tags n @ sug)),
                u_workspace = None\<rparr>"
    have "logs s [] (snd (update_one (note_id n) ?u s1))"
      by (rule logs_update_one [OF l1])
    from logs_emit [OF this, of "Print (TagsSuggested (note_id n) sug)"]
    show ?thesis
      using Some g Inr by (auto simp: suggest_tags_try_def sug_def Let_def split: prod.splits)
  qed
qed

lemma suggest_tags_logs:
  "fst (suggest_tags env n s) = Inr ()
   \<and> logs s [''suggest_tags''] (snd (suggest_tags env n s))"
proof (cases "suggest_tags_try env n s")
  case (Pair r s1)
  show ?thesis
  proof (cases r)
    case (Inl e)
    with Pair suggest_tags_try_logs [where env = env and n = n and s = s] have "logs s [] s1"
      by simp
    from logs_emit [OF this, of "Print (SuggestTagsFailed (note_id n) e)"] Pair Inl
    show ?thesis
      by (simp add: suggest_tags_def)
  next
    case (Inr u)
    with Pair suggest_tags_try_logs [where env = env and n = n and s = s] show ?thesis
      by (simp add: suggest_tags_def)
  qed
qed

lemma perform_action_logs:
  assumes "stored_fields n"
  shows "fst (perform_action env a n s) = Inr ()
       \<and> logs s [a] (snd (perform_action env a n s))"
proof -
  have u: "logs s [a] (emit (Print (UnknownAction a)) s)"
    using logs_emit [OF logs_refl, of s "Print (UnknownAction a)"] by simp
  show ?thesis
    using add_to_calendar_logs [OF assms, of env s] share_to_whatsapp_logs [OF assms, of env s]
      rephrase_note_logs [of env n s] suggest_tags_logs [of env n s] u
    by (simp add: perform_action_def action_functions_def)
qed

lemma run_rules_logs:
  assumes "stored_fields n"
  shows "fst (run_rules env rs n s) = Inr ()
       \<and> logs s (fired_actions rs n) (snd (run_rules env rs n s))"
proof (induction rs arbitrary: s)
  case Nil
  show ?case by (simp add: fired_actions_def logs_refl)
next
  case (Cons r rs)
  show ?case
  proof (cases "fires r n")
    case True
    then obtain a where a: "rule_action r = Some a"
      by (auto simp: fires_def split: option.splits)
    obtain res s1 where p: "perform_action env a n s = (res, s1)"
      by (cases "perform_action env a n s")
    with perform_action_logs [OF assms, of env a s]
    have r: "res = Inr ()" and l: "logs s [a] s1"
      by simp_all
    have f: "fired_actions (r # rs) n = [a] @ fired_actions rs n"
      using True a by (simp add: fired_actions_def)
    show ?thesis
      using p r a True Cons.IH [of s1] logs_trans [OF l, of "fired_actions rs n"]
      unfolding f by (simp add: run_rules_step del: run_rules.simps)
  next
    case False
    then have "fired_actions (r # rs) n = fired_actions rs n"
      by (simp add: fired_actions_def)
    with False Cons.IH [of s] show ?thesis
      by (simp add: run_rules_step del: run_rules.simps)
  qed
qed

lemma run_agents_logs:
  assumes "stored_fields n"
  shows "fst (run_agents env n s) = Inr ()
       \<and> (\<forall>rules. agents_config env = Some rules \<longrightarrow>
             logs s (fired_actions rules n) (snd (run_agents env n s)))"
  by (simp add: run_agents_def run_rules_logs [OF assms] split: option.splits)

section \<open>Stored notes carry a title and a content\<close>

lemma apply_set_fields: "stored_fields n \<Longrightarrow> stored_fields (apply_set u n)"
  by (auto simp: stored_fields_def apply_set_def split: option.splits)

lemma update_first_fields:
  "list_all stored_fields ns \<Longrightarrow> list_all stored_fields (fst (update_first i u ns))"
  by (induction ns) (auto simp: apply_set_fields)

lemma delete_first_fields:
  "list_all stored_fields ns \<Longrightarrow> list_all stored_fields (fst (delete_first i ns))"
  by (induction ns) auto

lemma notes_wf_emit [simp]: "notes_wf (emit c s) = notes_wf s"
  by (simp add: notes_wf_def emit_def)

lemma notes_wf_update_one: "notes_wf s \<Longrightarrow> notes_wf (snd (update_one i u s))"
  by (simp add: update_one_def) (simp add: notes_wf_def update_first_fields)

lemma notes_wf_update_one_pair:
  "update_one i u s = (m, s1) \<Longrightarrow> notes_wf s \<Longrightarrow> notes_wf s1"
  using notes_wf_update_one [of s i u] by simp

lemma notes_wf_generate: "notes_wf (snd (generate_response env p s)) = notes_wf s"
  by (simp add: generate_response_def ensure_gemini_def split: option.splits)
    (simp add: notes_wf_def)

lemma notes_wf_write: "notes_wf (snd (write_file env f s)) = notes_wf s"
  by (simp add: write_file_def)

lemma notes_wf_repo:
  assumes "notes_wf s"
  shows "notes_wf (snd (add_note env ttl cnt tgs wsp ap s))"
    and "notes_wf (snd (edit_note env nid u s))"
    and "notes_wf (snd (delete_note nid s))"
proof -
  show "notes_wf (snd (add_note env ttl cnt tgs wsp ap s))"
    using assms
    by (auto simp: notes_wf_def stored_fields_def add_note_def transcribe_audio_def
        insert_one_def get_next_note_id_def add_note_to_index_def emit_def Let_def
        split: option.splits sum.splits prod.splits if_splits)
  show "notes_wf (snd (edit_note env nid u s))"
    using assms by (simp add: notes_wf_def edit_note_notes update_first_fields)
  show "notes_wf (snd (delete_note nid s))"
    using assms
    by (simp add: notes_wf_def delete_note_def delete_one_def remove_note_from_index_def
        emit_def delete_first_fields)
qed

lemma notes_wf_calendar: "notes_wf (snd (add_to_calendar env n s)) = notes_wf s"
  by (auto simp: add_to_calendar_def add_to_calendar_try_def write_file_def
      split: option.splits)

lemma notes_wf_share: "notes_wf (snd (share_to_whatsapp env n s)) = notes_wf s"
  by (auto simp: share_to_whatsapp_def share_to_whatsapp_try_def write_file_def
      split: option.splits)

lemma notes_wf_rephrase: "notes_wf s \<Longrightarrow> notes_wf (snd (rephrase_note env n s))"
proof (cases "content n")
  case None
  assume "notes_wf s"
  with None show ?thesis
    by (simp add: rephrase_note_def rephrase_note_try_def)
next
  case (Some cnt)
  assume w: "notes_wf s"
  define p where "p = ''Rephrase the following note: '' @ cnt"
  obtain g s1 where g: "generate_response env p s = (g, s1)"
    by (cases "generate_response env p s")
  then have w1: "notes_wf s1"
    using w notes_wf_generate [of env p s] by simp
  show ?thesis
    using Some g w1
    by (cases g) (auto simp: rephrase_note_def rephrase_note_try_def p_def split: prod.splits
        dest: notes_wf_update_one_pair)
qed

lemma notes_wf_suggest: "notes_wf s \<Longrightarrow> notes_wf (snd (suggest_tags env n s))"
proof (cases "content n")
  case None
  assume "notes_wf s"
  with None show ?thesis
    by (simp add: suggest_tags_def suggest_tags_try_def)
next
  case (Some cnt)
  assume w: "notes_wf s"
  define p where "p = ''Suggest 1 to 3 tags for this note: '' @ cnt"
  obtain g s1 where g: "generate_response env p s = (g, s1)"
    by (cases "generate_response env p s")
  then have w1: "notes_wf s1"
    using w notes_wf_generate [of env p s] by simp
  show ?thesis
    using Some g w1
    by (cases g) (auto simp: suggest_tags_def suggest_tags_try_def p_def Let_def
        split: prod.splits dest: notes_wf_update_one_pair)
qed

lemma notes_wf_perform: "notes_wf s \<Longrightarrow> notes_wf (snd (perform_action env a n s))"
  by (simp add: perform_action_def action_functions_def notes_wf_calendar notes_wf_share
      notes_wf_rephrase notes_wf_suggest)

lemma notes_wf_rules: "notes_wf s \<Longrightarrow> notes_wf (snd (run_rules env rs n s))"
proof (induction rs arbitrary: s)
  case Nil
  then show ?case by simp
next
  case (Cons r rs)
  show ?case
  proof (cases "fires r n")
    case True
    obtain res s1 where p: "perform_action env (the (rule_action r)) n s = (res, s1)"
      by (cases "perform_action env (the (rule_action r)) n s")
    then have "notes_wf s1"
      using notes_wf_perform [OF Cons.prems, of env "the (rule_action r)" n] by simp
    with p True Cons.IH [of s1] show ?thesis
      by (cases res) (simp_all add: run_rules_step del: run_rules.simps)
  next
    case False
    with Cons.IH [OF Cons.prems] show ?thesis
      by (simp add: run_rules_step del: run_rules.simps)
  qed
qed

lemma notes_wf_agents: "notes_wf s \<Longrightarrow> notes_wf (snd (run_agents env n s))"
  by (simp add: run_agents_def notes_wf_rules split: option.splits)

lemma db_notes_relevant: "db_notes (snd (relevant_notes env q k s)) = db_notes s"
proof (cases "search_similar_notes env q k s")
  case (Pair r s1)
  then have "db_notes s1 = db_notes s"
    using search_similar_notes_frame(1) [of env q k s] by simp
  with Pair show ?thesis
    by (cases r) (simp_all add: relevant_notes_def full_text_search_def find_in_def emit_def)
qed

lemma notes_wf_ask: "notes_wf (snd (ask_question env q k s)) = notes_wf s"
proof (cases "qa_cache s q")
  case (Some a)
  then show ?thesis by (simp add: ask_question_def)
next
  case None
  obtain r s1 where rel: "relevant_notes env q k s = (r, s1)"
    by (cases "relevant_notes env q k s")
  then have w1: "notes_wf s1 = notes_wf s"
    using db_notes_relevant [of env q k s] by (simp add: notes_wf_def)
  show ?thesis
  proof (cases r)
    case (Inl e)
    with None rel w1 show ?thesis
      by (simp add: ask_question_def)
  next
    case (Inr t)
    obtain ids ft rl where t: "t = (ids, ft, rl)"
      by (cases t)
    obtain g s2 where gen: "generate_response env (make_prompt env (take k rl) q) s1 = (g, s2)"
      by (cases "generate_response env (make_prompt env (take k rl) q) s1")
    then have w2: "notes_wf s2 = notes_wf s1"
      using notes_wf_generate [of env "make_prompt env (take k rl) q" s1] by simp
    show ?thesis
      using None rel Inr t gen w1 w2
      by (cases g) (simp_all add: ask_question_def notes_wf_def)
  qed
qed

lemma notes_wf_exec: "notes_wf s \<Longrightarrow> notes_wf (exec env c s)"
proof (cases c)
  case (Repo x)
  assume "notes_wf s"
  with Repo show ?thesis
    by (cases x) (simp_all add: notes_wf_repo)
next
  case (Ask q k)
  assume "notes_wf s"
  with Ask show ?thesis
    by (simp add: notes_wf_ask)
next
  case (Agents n)
  assume "notes_wf s"
  with Agents show ?thesis
    by (simp add: notes_wf_agents)
qed

lemma notes_wf_exec_all: "notes_wf s \<Longrightarrow> notes_wf (exec_all cs s)"
  by (induction cs arbitrary: s) (simp_all add: notes_wf_exec)

lemma stored_notes_have_fields:
  "n \<in> set (db_notes (exec_all cs init_state)) \<Longrightarrow> stored_fields n"
proof -
  have "notes_wf (exec_all cs (init_state :: 'a state))"
    by (rule notes_wf_exec_all) (simp add: notes_wf_def init_state_def)
  then show "n \<in> set (db_notes (exec_all cs init_state)) \<Longrightarrow> stored_fields n"
    by (simp add: notes_wf_def list_all_iff)
qed

section \<open>Agent triggers\<close>







section \<open>Errors inside agent actions\<close>

lemma perform_action_continues:
  assumes "stored_fields n" and "fires r n" and "rule_action r = Some a"
  shows "run_rules env (r # rs) n s = run_rules env rs n (snd (perform_action env a n s))"
proof -
  obtain res s1 where p: "perform_action env a n s = (res, s1)"
    by (cases "perform_action env a n s")
  with perform_action_logs [OF assms(1), of env a s] have "res = Inr ()"
    by simp
  with p assms(2,3) show ?thesis
    by (simp add: run_rules_step del: run_rules.simps)
qed

text \<open>
  C4: errors inside agent actions. The note is one that carries a title and a content,
  as every note the program stores does (\<open>stored_notes_have_fields\<close>); \<^verbatim>\<open>run_agents\<close> is
  only called with a note read back from the database. For every such note, every
  environment and every state: \<^verbatim>\<open>run_agents\<close> and \<^verbatim>\<open>perform_action\<close> return normally; an
  error raised inside the \<^verbatim>\<open>try\<close> block of any of the four actions is caught there, the
  action prints its failure line and returns; after a rule that fires, the loop goes on
  with the rules that follow it from the state the action left, whatever happened inside
  the action; and the outcome lines printed by the whole run are those of the actions of
  all the rules that fire, one for each, in the order of the configuration.
\<close>

theorem run_agents_contains_action_failures:
  fixes env :: "('e, 'd) env"
  assumes "stored_fields n"
  shows
  "fst (run_agents env n s) = Inr ()
   \<and> fst (perform_action env a n s) = Inr ()
   \<and> (\<forall>ttl e s1. title n = Some ttl \<and> add_to_calendar_try env n ttl s = (Inl e, s1) \<longrightarrow>
         add_to_calendar env n s = (Inr (), emit (Print (CalendarFailed e)) s1))
   \<and> (\<forall>ttl e s1. title n = Some ttl \<and> share_to_whatsapp_try env n ttl s = (Inl e, s1) \<longrightarrow>
         share_to_whatsapp env n s = (Inr (), emit (Print (WhatsappFailed e)) s1))
   \<and> (\<forall>e s1. rephrase_note_try env n s = (Inl e, s1) \<longrightarrow>
         rephrase_note env n s = (Inr (), emit (Print (RephraseFailed (note_id n) e)) s1))
   \<and> (\<forall>e s1. suggest_tags_try env n s = (Inl e, s1) \<longrightarrow>
         suggest_tags env n s = (Inr (), emit (Print (SuggestTagsFailed (note_id n) e)) s1))
   \<and> (fires r n \<and> rule_action r = Some a \<longrightarrow>
         run_rules env (r # rs) n s = run_rules env rs n (snd (perform_action env a n s)))
   \<and> (\<forall>rules. agents_config env = Some rules \<longrightarrow>
         run_agents env n s = run_rules env rules n s
         \<and> List.map_filter outcome_action (new_calls s (snd (run_agents env n s)))
             = fired_actions rules n)"
proof -
  from assms obtain t0 c0 where tc: "title n = Some t0" "content n = Some c0"
    by (auto simp: stored_fields_def)
  have p1: "fst (run_agents env n s) = Inr ()"
    using run_agents_logs [OF assms, of env s] by simp
  have p2: "fst (perform_action env a n s) = Inr ()"
    using perform_action_logs [OF assms, of env a s] by simp
  have p3: "\<forall>ttl e s1. title n = Some ttl \<and> add_to_calendar_try env n ttl s = (Inl e, s1) \<longrightarrow>
         add_to_calendar env n s = (Inr (), emit (Print (CalendarFailed e)) s1)"
    using tc by (simp add: add_to_calendar_def)
  have p4: "\<forall>ttl e s1. title n = Some ttl \<and> share_to_whatsapp_try env n ttl s = (Inl e, s1) \<longrightarrow>
         share_to_whatsapp env n s = (Inr (), emit (Print (WhatsappFailed e)) s1)"
    using tc by (simp add: share_to_whatsapp_def)
  have p5: "\<forall>e s1. rephrase_note_try env n s = (Inl e, s1) \<longrightarrow>
         rephrase_note env n s = (Inr (), emit (Print (RephraseFailed (note_id n) e)) s1)"
    by (simp add: rephrase_note_def)
  have p6: "\<forall>e s1. suggest_tags_try env n s = (Inl e, s1) \<longrightarrow>
         suggest_tags env n s = (Inr (), emit (Print (SuggestTagsFailed (note_id n) e)) s1)"
    by (simp add: suggest_tags_def)
  have p7: "fires r n \<and> rule_action r = Some a \<longrightarrow>
         run_rules env (r # rs) n s = run_rules env rs n (snd (perform_action env a n s))"
    using perform_action_continues [OF assms] by blast
  have p8: "\<forall>rules. agents_config env = Some rules \<longrightarrow>
         run_agents env n s = run_rules env rules n s
         \<and> List.map_filter outcome_action (new_calls s (snd (run_agents env n s)))
             = fired_actions rules n"
  proof (intro allI impI conjI)
    fix rules
    assume c: "agents_config env = Some rules"
    then show "run_agents env n s = run_rules env rules n s"
      by (simp add: run_agents_def)
    from c have "logs s (fired_actions rules n) (snd (run_agents env n s))"
      using run_agents_logs [OF assms, of env s] by simp
    then show "List.map_filter outcome_action (new_calls s (snd (run_agents env n s)))
             = fired_actions rules n"
      by (rule logs_new_calls)
  qed
  from p1 p2 p3 p4 p5 p6 p7 p8 show ?thesis
    by (intro conjI)
qed

text \<open>
  The example: the event file cannot be written. The calendar action prints its failure,
  the share action of the next rule still runs and succeeds, and \<^verbatim>\<open>run_agents\<close> returns.
\<close>

theorem run_agents_contains_action_failures_witness:
  "stored_fields reminder_note
   \<and> add_to_calendar_try failing_env reminder_note ''T'' init_state = (Inl OSError, init_state)
   \<and> add_to_calendar failing_env reminder_note init_state
       = (Inr (), emit (Print (CalendarFailed OSError)) init_state)
   \<and> fst (run_agents failing_env reminder_note init_state) = Inr ()
   \<and> List.map_filter outcome_action
        (new_calls init_state (snd (run_agents failing_env reminder_note init_state)))
       = [''calendar_event'', ''share_to_whatsapp'']
   \<and> new_calls init_state (snd (run_agents failing_env reminder_note init_state))
       = [Print (CalendarFailed OSError), FileWrite WhatsappLog, FileWrite (ShareFile 7),
          Print (WhatsappShared ''T'')]"
proof -
  have sf: "stored_fields reminder_note"
    by (simp add: stored_fields_def reminder_note_def)
  note t = run_agents_contains_action_failures [OF sf, where env = failing_env
      and s = init_state and a = "''calendar_event''"]
  have ttl: "title reminder_note = Some ''T''"
    by (simp add: reminder_note_def)
  have tr: "add_to_calendar_try failing_env reminder_note ''T'' init_state
      = (Inl OSError, init_state)"
    by (simp add: add_to_calendar_try_def write_file_def failing_env_def reminder_note_def)
  have cfg: "agents_config failing_env = agents_config demo_env"
    by (simp add: failing_env_def)
  have f: "fired_actions (the (agents_config demo_env)) reminder_note
      = [''calendar_event'', ''share_to_whatsapp'']"
    by (simp add: fired_actions_def List.map_filter_def fires_def check_trigger_def
        note_tags_def demo_env_def reminder_note_def)
  have c: "agents_config failing_env = Some (the (agents_config demo_env))"
    by (simp add: failing_env_def demo_env_def)
  have a1: "add_to_calendar failing_env reminder_note init_state
       = (Inr (), emit (Print (CalendarFailed OSError)) init_state)"
    using t ttl tr by blast
  have a2: "fst (run_agents failing_env reminder_note init_state) = Inr ()"
    by (rule t [THEN conjunct1])
  have a3: "List.map_filter outcome_action
        (new_calls init_state (snd (run_agents failing_env reminder_note init_state)))
       = fired_actions (the (agents_config demo_env)) reminder_note"
    using t c by blast
  have a4: "new_calls init_state (snd (run_agents failing_env reminder_note init_state))
       = [Print (CalendarFailed OSError), FileWrite WhatsappLog, FileWrite (ShareFile 7),
          Print (WhatsappShared ''T'')]"
    by (simp add: new_calls_def run_agents_def perform_action_def action_functions_def
        add_to_calendar_def add_to_calendar_try_def share_to_whatsapp_def
        share_to_whatsapp_try_def write_file_def check_trigger_def note_tags_def
        failing_env_def demo_env_def reminder_note_def emit_def init_state_def)
  show ?thesis
    by (intro conjI sf tr a1 a2 trans [OF a3 f] a4)
qed

text \<open>
  Why the statement speaks of stored notes: a document without the key \<^verbatim>\<open>title\<close>, which
  the program never stores, makes \<^verbatim>\<open>add_to_calendar\<close> fail before its \<^verbatim>\<open>try\<close>.
\<close>

lemma run_agents_without_title:
  "run_agents demo_env untitled_note init_state = (Inl (KeyError ''title''), init_state)"
  by (simp add: run_agents_def perform_action_def action_functions_def add_to_calendar_def
      check_trigger_def note_tags_def untitled_note_def demo_env_def)

end
